theory Spec2Isabelle
  imports Main "HOL-Library.Word"
begin

unbundle bit_operations_syntax

section \<open>Message model (protocols.ts)\<close>

text \<open>
  A \<^verbatim>\<open>Uint8Array\<close> is a list of bytes. A TypeScript numeric enum is a number at run
  time, so the six header fields of a message are natural numbers and the enum members
  are names for numerals. An optional field (\<^verbatim>\<open>event?: EventType\<close>) is an
  \<open>option\<close>, \<open>None\<close> standing for \<^verbatim>\<open>undefined\<close>. A JavaScript string is
  the list of its UTF-16 code units.
\<close>

type_synonym byte = "8 word"
type_synonym bytes = "byte list"
type_synonym jsstring = "16 word list"

abbreviation (input) StartConnection :: int where "StartConnection \<equiv> 1"
abbreviation (input) FinishConnection :: int where "FinishConnection \<equiv> 2"
abbreviation (input) ConnectionStarted :: int where "ConnectionStarted \<equiv> 50"
abbreviation (input) ConnectionFailed :: int where "ConnectionFailed \<equiv> 51"
abbreviation (input) ConnectionFinished :: int where "ConnectionFinished \<equiv> 52"
abbreviation (input) StartSession :: int where "StartSession \<equiv> 100"
abbreviation (input) SessionFinished :: int where "SessionFinished \<equiv> 152"

abbreviation (input) MsgType_Invalid :: nat where "MsgType_Invalid \<equiv> 0"
abbreviation (input) MsgType_FullClientRequest :: nat where "MsgType_FullClientRequest \<equiv> 1"
abbreviation (input) MsgType_AudioOnlyClient :: nat where "MsgType_AudioOnlyClient \<equiv> 2"
abbreviation (input) MsgType_FullServerResponse :: nat where "MsgType_FullServerResponse \<equiv> 9"
abbreviation (input) MsgType_AudioOnlyServer :: nat where "MsgType_AudioOnlyServer \<equiv> 11"
abbreviation (input) MsgType_FrontEndResultServer :: nat where "MsgType_FrontEndResultServer \<equiv> 12"
abbreviation (input) MsgType_Error :: nat where "MsgType_Error \<equiv> 15"

abbreviation (input) NoSeq :: nat where "NoSeq \<equiv> 0"
abbreviation (input) PositiveSeq :: nat where "PositiveSeq \<equiv> 1"
abbreviation (input) LastNoSeq :: nat where "LastNoSeq \<equiv> 2"
abbreviation (input) NegativeSeq :: nat where "NegativeSeq \<equiv> 3"
abbreviation (input) WithEvent :: nat where "WithEvent \<equiv> 4"

abbreviation (input) Version1 :: nat where "Version1 \<equiv> 1"
abbreviation (input) HeaderSize4 :: nat where "HeaderSize4 \<equiv> 1"
abbreviation (input) JSON :: nat where "JSON \<equiv> 1"
abbreviation (input) Compression_None :: nat where "Compression_None \<equiv> 0"

record Message =
  version :: nat
  headerSize :: nat
  type :: nat
  flag :: nat
  serialization :: nat
  compression :: nat
  event :: "int option"
  sessionId :: "jsstring option"
  connectId :: "jsstring option"
  sequence :: "int option"
  errorCode :: "int option"
  payload :: bytes

text \<open>
  The code throws \<^verbatim>\<open>Error\<close> objects told apart by their text. Each text is a
  constructor here: \<open>FrameTooShort\<close> is "data too short", \<open>TruncatedField f\<close> is
  "insufficient data for f", \<open>UnsupportedMessageType\<close> is "unsupported message type",
  \<open>UnexpectedMessage\<close> is the error of \<^verbatim>\<open>WaitForEvent\<close>, \<open>ProtocolViolation\<close> the
  error of the default branch of the streaming loop and \<open>EmptyResult\<close> is
  "no audio received".
\<close>

datatype field =
    EventField | SessionIdSize | SessionIdBody | ConnectIdSize | ConnectIdBody
  | SequenceField | ErrorCodeField | PayloadSize | PayloadBody

datatype error =
    FrameTooShort nat
  | TruncatedField field
  | UnsupportedMessageType nat
  | UnexpectedMessage nat int
  | ProtocolViolation Message
  | EmptyResult

subsection \<open>Bytes, big-endian integers, strings\<close>

text \<open>\<^verbatim>\<open>DataView.setUint32(0, n, false)\<close> on a fresh buffer of four bytes.\<close>

definition setUint32 :: "nat \<Rightarrow> bytes" where
  "setUint32 n = [of_nat (n div 2 ^ 24), of_nat (n div 2 ^ 16), of_nat (n div 2 ^ 8), of_nat n]"

text \<open>\<^verbatim>\<open>DataView.setInt32\<close>: the two's complement of the number, modulo \<open>2 ^ 32\<close>.\<close>

definition setInt32 :: "int \<Rightarrow> bytes" where
  "setInt32 v = setUint32 (nat (v mod 2 ^ 32))"

text \<open>
  \<^verbatim>\<open>new DataView(data.buffer, data.byteOffset + offset, 4).getUint32(0, false)\<close>;
  every caller has checked \<open>offset + 4 \<le> length data\<close> before.
\<close>

definition getUint32 :: "bytes \<Rightarrow> nat \<Rightarrow> nat" where
  "getUint32 data offset =
     unat (data ! offset) * 2 ^ 24 + unat (data ! (offset + 1)) * 2 ^ 16
     + unat (data ! (offset + 2)) * 2 ^ 8 + unat (data ! (offset + 3))"

definition getInt32 :: "bytes \<Rightarrow> nat \<Rightarrow> int" where
  "getInt32 data offset =
     (let u = getUint32 data offset in if 2 ^ 31 \<le> u then int u - 2 ^ 32 else int u)"

text \<open>\<^verbatim>\<open>data.slice(start, end)\<close> for \<open>start \<le> end\<close>.\<close>

definition slice :: "bytes \<Rightarrow> nat \<Rightarrow> nat \<Rightarrow> bytes" where
  "slice data start end = take (end - start) (drop start data)"

text \<open>
  \<^verbatim>\<open>Buffer.from(s, 'utf8')\<close> and \<^verbatim>\<open>new TextEncoder().encode(s)\<close>, which are
  functions of the platform: the code units are read as code points, a surrogate pair as
  one code point and an unpaired surrogate as U+FFFD, and each code point is written as
  one to four bytes.
\<close>

fun codePoints :: "nat list \<Rightarrow> nat list" where
  "codePoints [] = []"
| "codePoints [u] = [if 0xD800 \<le> u \<and> u < 0xE000 then 0xFFFD else u]"
| "codePoints (u # v # us) =
     (if 0xD800 \<le> u \<and> u < 0xDC00 \<and> 0xDC00 \<le> v \<and> v < 0xE000
      then (0x10000 + (u - 0xD800) * 0x400 + (v - 0xDC00)) # codePoints us
      else (if 0xD800 \<le> u \<and> u < 0xE000 then 0xFFFD else u) # codePoints (v # us))"

definition utf8_bytes :: "nat \<Rightarrow> bytes" where
  "utf8_bytes c =
     (if c < 0x80 then [of_nat c]
      else if c < 0x800 then [of_nat (0xC0 + c div 64), of_nat (0x80 + c mod 64)]
      else if c < 0x10000 then
        [of_nat (0xE0 + c div 4096), of_nat (0x80 + c div 64 mod 64), of_nat (0x80 + c mod 64)]
      else
        [of_nat (0xF0 + c div 262144), of_nat (0x80 + c div 4096 mod 64),
         of_nat (0x80 + c div 64 mod 64), of_nat (0x80 + c mod 64)])"

definition utf8_encode :: "jsstring \<Rightarrow> bytes" where
  "utf8_encode s = concat (map utf8_bytes (codePoints (map unat s)))"

text \<open>
  \<^verbatim>\<open>new TextDecoder().decode(b)\<close> with its default options, also a function of the
  platform: the UTF-8 decoder of the Encoding Standard, whose state is the code point
  under construction, the continuation bytes still needed and the bounds of the next
  byte. A byte that cannot start or continue a sequence gives U+FFFD and, when it
  interrupts a sequence, is read again as the start of the next one. A byte order mark
  at the start is removed (\<^verbatim>\<open>ignoreBOM\<close> is false), and the code points are returned
  as UTF-16 code units.
\<close>

type_synonym utf8_state = "nat \<times> nat \<times> nat \<times> nat"

definition utf8_idle :: utf8_state where
  "utf8_idle = (0, 0, 0x80, 0xBF)"

definition startSequence :: "nat \<Rightarrow> nat list \<times> utf8_state" where
  "startSequence b =
     (if b < 0x80 then ([b], utf8_idle)
      else if 0xC2 \<le> b \<and> b \<le> 0xDF then ([], (b mod 32, 1, 0x80, 0xBF))
      else if 0xE0 \<le> b \<and> b \<le> 0xEF then
        ([], (b mod 16, 2, if b = 0xE0 then 0xA0 else 0x80, if b = 0xED then 0x9F else 0xBF))
      else if 0xF0 \<le> b \<and> b \<le> 0xF4 then
        ([], (b mod 8, 3, if b = 0xF0 then 0x90 else 0x80, if b = 0xF4 then 0x8F else 0xBF))
      else ([0xFFFD], utf8_idle))"

fun decodeUtf8 :: "utf8_state \<Rightarrow> nat list \<Rightarrow> nat list" where
  "decodeUtf8 (cp, needed, lower, upper) [] = (if needed = 0 then [] else [0xFFFD])"
| "decodeUtf8 (cp, needed, lower, upper) (b # bs) =
     (if needed = 0 then
        case startSequence b of (out, st) \<Rightarrow> out @ decodeUtf8 st bs
      else if b < lower \<or> upper < b then
        case startSequence b of (out, st) \<Rightarrow> 0xFFFD # out @ decodeUtf8 st bs
      else if needed = 1 then (cp * 64 + b mod 64) # decodeUtf8 utf8_idle bs
      else decodeUtf8 (cp * 64 + b mod 64, needed - 1, 0x80, 0xBF) bs)"

definition utf16_units :: "nat \<Rightarrow> jsstring" where
  "utf16_units c =
     (if c < 0x10000 then [of_nat c]
      else [of_nat (0xD800 + (c - 0x10000) div 0x400), of_nat (0xDC00 + (c - 0x10000) mod 0x400)])"

definition stripBOM :: "nat list \<Rightarrow> nat list" where
  "stripBOM cps = (case cps of [] \<Rightarrow> [] | c # rest \<Rightarrow> if c = 0xFEFF then rest else c # rest)"

definition utf8_decode :: "bytes \<Rightarrow> jsstring" where
  "utf8_decode b = concat (map utf16_units (stripBOM (decodeUtf8 utf8_idle (map unat b))))"

subsection \<open>createMessage and the send helpers' messages\<close>

definition createMessage :: "nat \<Rightarrow> nat \<Rightarrow> Message" where
  "createMessage msgType flg =
     \<lparr> version = Version1, headerSize = HeaderSize4, type = msgType, flag = flg,
       serialization = JSON, compression = Compression_None,
       event = None, sessionId = None, connectId = None, sequence = None,
       errorCode = None, payload = [] \<rparr>"

text \<open>The message \<^verbatim>\<open>StartSession(ws, payload, sessionId)\<close> builds and marshals.\<close>

definition StartSession_message :: "bytes \<Rightarrow> jsstring \<Rightarrow> Message" where
  "StartSession_message pl sid =
     (createMessage MsgType_FullClientRequest WithEvent)
       \<lparr> event := Some StartSession, sessionId := Some sid, payload := pl \<rparr>"

text \<open>The message \<^verbatim>\<open>AudioOnlyClient(ws, payload, flag)\<close> builds and marshals.\<close>

definition AudioOnlyClient_message :: "bytes \<Rightarrow> nat \<Rightarrow> Message" where
  "AudioOnlyClient_message pl flg =
     (createMessage MsgType_AudioOnlyClient flg) \<lparr> payload := pl \<rparr>"

subsection \<open>Writers\<close>

type_synonym writer = "Message \<Rightarrow> bytes option"

definition writeEvent :: writer where
  "writeEvent msg = (case event msg of None \<Rightarrow> None | Some e \<Rightarrow> Some (setInt32 e))"

definition writeSessionId :: writer where
  "writeSessionId msg =
     (case event msg of
        None \<Rightarrow> None
      | Some e \<Rightarrow>
          if e = StartConnection \<or> e = FinishConnection \<or> e = ConnectionStarted
             \<or> e = ConnectionFailed
          then None
          else
            let sessionId' = (case sessionId msg of None \<Rightarrow> [] | Some s \<Rightarrow> s);
                sessionIdBytes = utf8_encode sessionId'
            in Some (setUint32 (length sessionIdBytes) @ sessionIdBytes))"

definition writeSequence :: writer where
  "writeSequence msg = (case sequence msg of None \<Rightarrow> None | Some s \<Rightarrow> Some (setInt32 s))"

definition writeErrorCode :: writer where
  "writeErrorCode msg =
     (case errorCode msg of None \<Rightarrow> None | Some c \<Rightarrow> Some (setUint32 (nat (c mod 2 ^ 32))))"

definition writePayload :: writer where
  "writePayload msg = Some (setUint32 (length (payload msg)) @ payload msg)"

definition getWriters :: "Message \<Rightarrow> error + writer list" where
  "getWriters msg =
     (let writers = (if flag msg = WithEvent then [writeEvent, writeSessionId] else [])
      in if type msg = MsgType_AudioOnlyClient \<or> type msg = MsgType_AudioOnlyServer
            \<or> type msg = MsgType_FrontEndResultServer \<or> type msg = MsgType_FullClientRequest
            \<or> type msg = MsgType_FullServerResponse
         then Inr ((if flag msg = PositiveSeq \<or> flag msg = NegativeSeq
                    then writers @ [writeSequence] else writers) @ [writePayload])
         else if type msg = MsgType_Error
         then Inr (writers @ [writeErrorCode] @ [writePayload])
         else Inl (UnsupportedMessageType (type msg)))"

text \<open>The loop \<^verbatim>\<open>for (const writer of writers)\<close>: a \<^verbatim>\<open>null\<close> result is not pushed.\<close>

fun runWriters :: "writer list \<Rightarrow> Message \<Rightarrow> bytes list \<Rightarrow> bytes list" where
  "runWriters [] msg buffers = buffers"
| "runWriters (w # ws) msg buffers =
     (case w msg of
        None \<Rightarrow> runWriters ws msg buffers
      | Some d \<Rightarrow> runWriters ws msg (buffers @ [d]))"

text \<open>
  The header is a zeroed \<^verbatim>\<open>Uint8Array\<close> of \<open>4 * headerSize\<close> bytes; a store into a
  typed array keeps the low eight bits, and a store past its end does nothing, as a list
  update does.
\<close>

definition marshalHeader :: "Message \<Rightarrow> bytes" where
  "marshalHeader msg =
     (replicate (4 * headerSize msg) 0)
       [0 := of_nat (push_bit 4 (version msg) OR headerSize msg),
        1 := of_nat (push_bit 4 (type msg) OR flag msg),
        2 := of_nat (push_bit 4 (serialization msg) OR compression msg)]"

definition marshalMessage :: "Message \<Rightarrow> error + bytes" where
  "marshalMessage msg =
     (let buffers = [marshalHeader msg]
      in case getWriters msg of
           Inl e \<Rightarrow> Inl e
         | Inr writers \<Rightarrow> Inr (concat (runWriters writers msg buffers)))"

subsection \<open>Readers\<close>

type_synonym reader = "Message \<Rightarrow> bytes \<Rightarrow> nat \<Rightarrow> error + Message \<times> nat"

definition readEvent :: reader where
  "readEvent msg data offset =
     (if offset + 4 > length data then Inl (TruncatedField EventField)
      else Inr (msg\<lparr>event := Some (getInt32 data offset)\<rparr>, offset + 4))"

definition readSessionId :: reader where
  "readSessionId msg data offset =
     (case event msg of
        None \<Rightarrow> Inr (msg, offset)
      | Some e \<Rightarrow>
          if e = StartConnection \<or> e = FinishConnection \<or> e = ConnectionStarted
             \<or> e = ConnectionFailed \<or> e = ConnectionFinished
          then Inr (msg, offset)
          else if offset + 4 > length data then Inl (TruncatedField SessionIdSize)
          else
            let size = getUint32 data offset;
                offset = offset + 4
            in if size > 0
               then if offset + size > length data then Inl (TruncatedField SessionIdBody)
                    else Inr (msg\<lparr>sessionId :=
                                Some (utf8_decode (slice data offset (offset + size)))\<rparr>,
                              offset + size)
               else Inr (msg, offset))"

definition readConnectId :: reader where
  "readConnectId msg data offset =
     (case event msg of
        None \<Rightarrow> Inr (msg, offset)
      | Some e \<Rightarrow>
          if \<not> (e = ConnectionStarted \<or> e = ConnectionFailed \<or> e = ConnectionFinished)
          then Inr (msg, offset)
          else if offset + 4 > length data then Inl (TruncatedField ConnectIdSize)
          else
            let size = getUint32 data offset;
                offset = offset + 4
            in if size > 0
               then if offset + size > length data then Inl (TruncatedField ConnectIdBody)
                    else Inr (msg\<lparr>connectId :=
                                Some (utf8_decode (slice data offset (offset + size)))\<rparr>,
                              offset + size)
               else Inr (msg, offset))"

definition readSequence :: reader where
  "readSequence msg data offset =
     (if offset + 4 > length data then Inl (TruncatedField SequenceField)
      else Inr (msg\<lparr>sequence := Some (getInt32 data offset)\<rparr>, offset + 4))"

definition readErrorCode :: reader where
  "readErrorCode msg data offset =
     (if offset + 4 > length data then Inl (TruncatedField ErrorCodeField)
      else Inr (msg\<lparr>errorCode := Some (int (getUint32 data offset))\<rparr>, offset + 4))"

definition readPayload :: reader where
  "readPayload msg data offset =
     (if offset + 4 > length data then Inl (TruncatedField PayloadSize)
      else
        let size = getUint32 data offset;
            offset = offset + 4
        in if size > 0
           then if offset + size > length data then Inl (TruncatedField PayloadBody)
                else Inr (msg\<lparr>payload := slice data offset (offset + size)\<rparr>, offset + size)
           else Inr (msg, offset))"

definition getReaders :: "Message \<Rightarrow> error + reader list" where
  "getReaders msg =
     (let tail = (if flag msg = WithEvent then [readEvent, readSessionId, readConnectId] else [])
                 @ [readPayload]
      in if type msg = MsgType_AudioOnlyClient \<or> type msg = MsgType_AudioOnlyServer
            \<or> type msg = MsgType_FrontEndResultServer \<or> type msg = MsgType_FullClientRequest
            \<or> type msg = MsgType_FullServerResponse
         then Inr ((if flag msg = PositiveSeq \<or> flag msg = NegativeSeq
                    then [readSequence] else []) @ tail)
         else if type msg = MsgType_Error
         then Inr ([readErrorCode] @ tail)
         else Inl (UnsupportedMessageType (type msg)))"

text \<open>The loop \<^verbatim>\<open>for (const reader of readers) offset = reader(msg, data, offset)\<close>;
  a reader that throws ends it.\<close>

fun runReaders :: "reader list \<Rightarrow> Message \<Rightarrow> bytes \<Rightarrow> nat \<Rightarrow> error + Message \<times> nat" where
  "runReaders [] msg data offset = Inr (msg, offset)"
| "runReaders (r # rs) msg data offset =
     (case r msg data offset of
        Inl e \<Rightarrow> Inl e
      | Inr (msg', offset') \<Rightarrow> runReaders rs msg' data offset')"

text \<open>The header fields unmarshalMessage reads from the first three bytes.\<close>

definition unmarshalHeader :: "bytes \<Rightarrow> Message" where
  "unmarshalHeader data =
     (let versionAndHeaderSize = unat (data ! 0);
          typeAndFlag = unat (data ! 1);
          serializationAndCompression = unat (data ! 2)
      in \<lparr> version = drop_bit 4 versionAndHeaderSize,
           headerSize = versionAndHeaderSize AND 15,
           type = drop_bit 4 typeAndFlag,
           flag = typeAndFlag AND 15,
           serialization = drop_bit 4 serializationAndCompression,
           compression = serializationAndCompression AND 15,
           event = None, sessionId = None, connectId = None, sequence = None,
           errorCode = None, payload = [] \<rparr>)"

text \<open>The body of unmarshalMessage, with the local \<^verbatim>\<open>offset\<close> kept beside the message.\<close>

definition unmarshalState :: "bytes \<Rightarrow> error + Message \<times> nat" where
  "unmarshalState data =
     (if length data < 3 then Inl (FrameTooShort (length data))
      else
        let msg = unmarshalHeader data;
            offset = 4 * headerSize msg
        in case getReaders msg of
             Inl e \<Rightarrow> Inl e
           | Inr readers \<Rightarrow> runReaders readers msg data offset)"

definition unmarshalMessage :: "bytes \<Rightarrow> error + Message" where
  "unmarshalMessage data =
     (case unmarshalState data of Inl e \<Rightarrow> Inl e | Inr (msg, offset) \<Rightarrow> Inr msg)"

section \<open>Connection demultiplexer\<close>

text \<open>
  The entries of \<^verbatim>\<open>messageQueues\<close> and \<^verbatim>\<open>messageCallbacks\<close> for one socket. The
  maps have an entry for the socket, and the socket has its \<^verbatim>\<open>'message'\<close> listener, once
  setupMessageHandler has run for it: that is the field \<open>installed\<close>, and the two lists are
  empty until then. A pending resolver is the number of the \<^verbatim>\<open>ReceiveMessage\<close> call that
  pushed it. What a step does to the promises is its list of notices.
\<close>

record Demux =
  installed :: bool
  messageQueue :: "Message list"
  messageCallbacks :: "nat list"

datatype notice = Resolved nat Message | Rejected nat | HandlerThrew error

text \<open>A socket on which ReceiveMessage has not been called yet.\<close>

definition initialDemux :: Demux where
  "initialDemux = \<lparr> installed = False, messageQueue = [], messageCallbacks = [] \<rparr>"

text \<open>setupMessageHandler: the first call for a socket sets both entries to the empty list
  and registers the listener, later calls do nothing.\<close>

definition setupMessageHandler :: "Demux \<Rightarrow> Demux" where
  "setupMessageHandler s =
     (if \<not> installed s
      then s\<lparr>installed := True, messageQueue := [], messageCallbacks := []\<rparr>
      else s)"

text \<open>The \<^verbatim>\<open>ws.on('message', ...)\<close> listener that setupMessageHandler registers.\<close>

definition messageHandler :: "Demux \<Rightarrow> bytes \<Rightarrow> Demux \<times> notice list" where
  "messageHandler s data =
     (case unmarshalMessage data of
        Inl e \<Rightarrow> (s, [HandlerThrew e])
      | Inr msg \<Rightarrow>
          (case messageCallbacks s of
             callback # callbacks \<Rightarrow> (s\<lparr>messageCallbacks := callbacks\<rparr>, [Resolved callback msg])
           | [] \<Rightarrow> (s\<lparr>messageQueue := messageQueue s @ [msg]\<rparr>, [])))"

text \<open>A frame arrives on the socket: the listener runs if it has been registered, and
  otherwise nothing listens and the frame is lost.\<close>

definition onFrameArrived :: "Demux \<Rightarrow> bytes \<Rightarrow> Demux \<times> notice list" where
  "onFrameArrived s data = (if installed s then messageHandler s data else (s, []))"

definition ReceiveMessage :: "Demux \<Rightarrow> nat \<Rightarrow> Demux \<times> notice list" where
  "ReceiveMessage s0 resolver =
     (let s = setupMessageHandler s0
      in case messageQueue s of
           msg # queue \<Rightarrow> (s\<lparr>messageQueue := queue\<rparr>, [Resolved resolver msg])
         | [] \<Rightarrow> (s\<lparr>messageCallbacks := messageCallbacks s @ [resolver]\<rparr>, []))"

text \<open>An \<^verbatim>\<open>'error'\<close> event: the errorHandler of every pending call removes its resolver
  and rejects.\<close>

definition onSocketError :: "Demux \<Rightarrow> Demux \<times> notice list" where
  "onSocketError s = (s\<lparr>messageCallbacks := []\<rparr>, map Rejected (messageCallbacks s))"

datatype action = FrameArrived bytes | Receive nat | SocketError

fun step :: "Demux \<Rightarrow> action \<Rightarrow> Demux \<times> notice list" where
  "step s (FrameArrived data) = onFrameArrived s data"
| "step s (Receive resolver) = ReceiveMessage s resolver"
| "step s SocketError = onSocketError s"

fun run :: "Demux \<Rightarrow> action list \<Rightarrow> Demux \<times> notice list" where
  "run s [] = (s, [])"
| "run s (a # as) =
     (case step s a of (s', ns) \<Rightarrow> (case run s' as of (s'', ns') \<Rightarrow> (s'', ns @ ns')))"

definition exactly_one_nonempty :: "Demux \<Rightarrow> bool" where
  "exactly_one_nonempty s = ((messageQueue s \<noteq> []) \<noteq> (messageCallbacks s \<noteq> []))"

section \<open>Session protocol\<close>

text \<open>
  A sequential caller sees the socket as the list of messages its successive
  \<^verbatim>\<open>await ReceiveMessage(ws)\<close> resolve with. A function that awaits returns its result
  and the messages it has not read; \<open>None\<close> is a call still suspended when the list
  ends.
\<close>

definition WaitForEvent ::
    "Message list \<Rightarrow> nat \<Rightarrow> int \<Rightarrow> (error + Message) option \<times> Message list" where
  "WaitForEvent arrivals msgType eventType =
     (case arrivals of
        [] \<Rightarrow> (None, [])
      | msg # rest \<Rightarrow>
          if type msg \<noteq> msgType \<or> event msg \<noteq> Some eventType
          then (Some (Inl (UnexpectedMessage (type msg)
                             (case event msg of None \<Rightarrow> 0 | Some e \<Rightarrow> e))), rest)
          else (Some (Inr msg), rest))"

text \<open>
  The \<^verbatim>\<open>while (true)\<close> loop of unidirectional\_stream.ts and of
  TTSService.synthesizeSingle, which differ only in what they log.
\<close>

fun streamLoop ::
    "Message list \<Rightarrow> bytes list \<Rightarrow> (error + bytes list) option \<times> Message list" where
  "streamLoop [] totalAudio = (None, [])"
| "streamLoop (msg # rest) totalAudio =
     (if type msg = MsgType_FullServerResponse then
        if event msg = Some SessionFinished then (Some (Inr totalAudio), rest)
        else streamLoop rest totalAudio
      else if type msg = MsgType_AudioOnlyServer then
        streamLoop rest (totalAudio @ [payload msg])
      else (Some (Inl (ProtocolViolation msg)), rest))"

text \<open>The loop, the check after it and \<^verbatim>\<open>Buffer.concat(audioChunks)\<close>, as in
  synthesizeSingle; unidirectional\_stream.ts writes the chunks to a file instead.\<close>

definition synthesizeSingle :: "Message list \<Rightarrow> (error + bytes) option \<times> Message list" where
  "synthesizeSingle arrivals =
     (case streamLoop arrivals [] of
        (None, rest) \<Rightarrow> (None, rest)
      | (Some (Inl e), rest) \<Rightarrow> (Some (Inl e), rest)
      | (Some (Inr totalAudio), rest) \<Rightarrow>
          if length totalAudio = 0 then (Some (Inl EmptyResult), rest)
          else (Some (Inr (concat totalAudio)), rest))"

section \<open>The specification's words\<close>

text \<open>
  The kinds that carry content, the connection-scope events of the data model, the events
  for which the decoder skips the session id, and the events that carry a connect id.
\<close>

definition content_kind :: "nat \<Rightarrow> bool" where
  "content_kind k =
     (k = MsgType_FullClientRequest \<or> k = MsgType_AudioOnlyClient
      \<or> k = MsgType_FullServerResponse \<or> k = MsgType_AudioOnlyServer
      \<or> k = MsgType_FrontEndResultServer)"

definition connection_scope :: "int \<Rightarrow> bool" where
  "connection_scope e =
     (e = StartConnection \<or> e = FinishConnection \<or> e = ConnectionStarted
      \<or> e = ConnectionFailed)"

definition decode_skips_sessionId :: "int \<Rightarrow> bool" where
  "decode_skips_sessionId e =
     (e = StartConnection \<or> e = FinishConnection \<or> e = ConnectionStarted
      \<or> e = ConnectionFailed \<or> e = ConnectionFinished)"

definition carries_connectId :: "int \<Rightarrow> bool" where
  "carries_connectId e =
     (e = ConnectionStarted \<or> e = ConnectionFailed \<or> e = ConnectionFinished)"

text \<open>
  The decoder of section 4.1 written as one straight line: first the field the kind
  selects, second the fields of an event, last the payload. A string field is a four-byte
  big-endian length and that many bytes; a length of zero leaves the field as it is.
\<close>

definition read_int32 :: "field \<Rightarrow> bytes \<Rightarrow> nat \<Rightarrow> error + int \<times> nat" where
  "read_int32 f data offset =
     (if offset + 4 > length data then Inl (TruncatedField f)
      else Inr (getInt32 data offset, offset + 4))"

definition read_string_field ::
    "field \<Rightarrow> field \<Rightarrow> bytes \<Rightarrow> nat \<Rightarrow> error + jsstring option \<times> nat" where
  "read_string_field fsize fbody data offset =
     (if offset + 4 > length data then Inl (TruncatedField fsize)
      else
        let size = getUint32 data offset
        in if size = 0 then Inr (None, offset + 4)
           else if offset + 4 + size > length data then Inl (TruncatedField fbody)
           else Inr (Some (utf8_decode (slice data (offset + 4) (offset + 4 + size))),
                     offset + 4 + size))"

fun set_sessionId :: "jsstring option \<Rightarrow> Message \<Rightarrow> Message" where
  "set_sessionId None msg = msg"
| "set_sessionId (Some s) msg = msg\<lparr>sessionId := Some s\<rparr>"

fun set_connectId :: "jsstring option \<Rightarrow> Message \<Rightarrow> Message" where
  "set_connectId None msg = msg"
| "set_connectId (Some s) msg = msg\<lparr>connectId := Some s\<rparr>"

definition first_field :: "Message \<Rightarrow> bytes \<Rightarrow> nat \<Rightarrow> error + Message \<times> nat" where
  "first_field msg data offset =
     (if content_kind (type msg) then
        if flag msg = PositiveSeq \<or> flag msg = NegativeSeq then
          case read_int32 SequenceField data offset of
            Inl e \<Rightarrow> Inl e
          | Inr (v, offset') \<Rightarrow> Inr (msg\<lparr>sequence := Some v\<rparr>, offset')
        else Inr (msg, offset)
      else if type msg = MsgType_Error then
        if offset + 4 > length data then Inl (TruncatedField ErrorCodeField)
        else Inr (msg\<lparr>errorCode := Some (int (getUint32 data offset))\<rparr>, offset + 4)
      else Inl (UnsupportedMessageType (type msg)))"

definition event_fields :: "Message \<Rightarrow> bytes \<Rightarrow> nat \<Rightarrow> error + Message \<times> nat" where
  "event_fields msg data offset =
     (if flag msg = WithEvent then
        case read_int32 EventField data offset of
          Inl e \<Rightarrow> Inl e
        | Inr (ev, offset1) \<Rightarrow>
            (case (if decode_skips_sessionId ev then Inr (None, offset1)
                   else read_string_field SessionIdSize SessionIdBody data offset1) of
               Inl e \<Rightarrow> Inl e
             | Inr (sid, offset2) \<Rightarrow>
                 (case (if carries_connectId ev
                        then read_string_field ConnectIdSize ConnectIdBody data offset2
                        else Inr (None, offset2)) of
                    Inl e \<Rightarrow> Inl e
                  | Inr (cid, offset3) \<Rightarrow>
                      Inr (set_connectId cid (set_sessionId sid (msg\<lparr>event := Some ev\<rparr>)),
                           offset3)))
      else Inr (msg, offset))"

definition payload_field :: "Message \<Rightarrow> bytes \<Rightarrow> nat \<Rightarrow> error + Message \<times> nat" where
  "payload_field msg data offset =
     (if offset + 4 > length data then Inl (TruncatedField PayloadSize)
      else
        let size = getUint32 data offset
        in if size = 0 then Inr (msg, offset + 4)
           else if offset + 4 + size > length data then Inl (TruncatedField PayloadBody)
           else Inr (msg\<lparr>payload := slice data (offset + 4) (offset + 4 + size)\<rparr>,
                     offset + 4 + size))"

definition decode_in_order :: "bytes \<Rightarrow> error + Message" where
  "decode_in_order data =
     (if length data < 3 then Inl (FrameTooShort (length data))
      else
        let header = unmarshalHeader data
        in case first_field header data (4 * headerSize header) of
             Inl e \<Rightarrow> Inl e
           | Inr (msg1, offset1) \<Rightarrow>
               (case event_fields msg1 data offset1 of
                  Inl e \<Rightarrow> Inl e
                | Inr (msg2, offset2) \<Rightarrow>
                    (case payload_field msg2 data offset2 of
                       Inl e \<Rightarrow> Inl e
                     | Inr (msg3, offset3) \<Rightarrow> Inr msg3)))"

text \<open>
  The encoder of section 4.1 written as one straight line: the header, the event and the
  session id, the field the kind selects, the payload.
\<close>

definition event_part :: "Message \<Rightarrow> bytes" where
  "event_part msg =
     (if flag msg = WithEvent then
        case event msg of
          None \<Rightarrow> []
        | Some e \<Rightarrow>
            setInt32 e
            @ (if connection_scope e then []
               else setUint32 (length (utf8_encode (case sessionId msg of None \<Rightarrow> [] | Some s \<Rightarrow> s)))
                    @ utf8_encode (case sessionId msg of None \<Rightarrow> [] | Some s \<Rightarrow> s))
      else [])"

definition kind_part :: "Message \<Rightarrow> bytes" where
  "kind_part msg =
     (if content_kind (type msg) then
        if flag msg = PositiveSeq \<or> flag msg = NegativeSeq then
          case sequence msg of None \<Rightarrow> [] | Some s \<Rightarrow> setInt32 s
        else []
      else case errorCode msg of None \<Rightarrow> [] | Some c \<Rightarrow> setUint32 (nat (c mod 2 ^ 32)))"

definition payload_part :: "Message \<Rightarrow> bytes" where
  "payload_part msg = setUint32 (length (payload msg)) @ payload msg"

definition encode_in_order :: "Message \<Rightarrow> error + bytes" where
  "encode_in_order msg =
     (if content_kind (type msg) \<or> type msg = MsgType_Error
      then Inr (marshalHeader msg @ event_part msg @ kind_part msg @ payload_part msg)
      else Inl (UnsupportedMessageType (type msg)))"

text \<open>
  The presence rules of the round-trip property: the event is present iff the flag is
  WithEvent, the session id iff the flag is WithEvent and the event is outside the
  connection-scope set, the sequence iff the kind carries content and the flag is
  PositiveSeq or NegativeSeq, the error code iff the kind is Error.
\<close>

definition presence_rules :: "Message \<Rightarrow> bool" where
  "presence_rules msg =
     ((event msg \<noteq> None) = (flag msg = WithEvent)
      \<and> (sessionId msg \<noteq> None)
          = (flag msg = WithEvent
             \<and> (case event msg of None \<Rightarrow> False | Some e \<Rightarrow> \<not> connection_scope e))
      \<and> (sequence msg \<noteq> None)
          = (content_kind (type msg) \<and> (flag msg = PositiveSeq \<or> flag msg = NegativeSeq))
      \<and> (errorCode msg \<noteq> None) = (type msg = MsgType_Error))"

text \<open>
  The values the data model gives the fields: four bits for the header fields with a
  header of at least one four-byte unit, one of the six kinds, 32 bits, signed, for the
  event and the sequence, 32 bits, unsigned, for the error code, and lengths that fit the
  four-byte length prefix.
\<close>

definition representable :: "Message \<Rightarrow> bool" where
  "representable msg =
     (version msg < 16 \<and> 1 \<le> headerSize msg \<and> headerSize msg < 16 \<and> flag msg < 16
      \<and> serialization msg < 16 \<and> compression msg < 16
      \<and> (content_kind (type msg) \<or> type msg = MsgType_Error)
      \<and> (case event msg of None \<Rightarrow> True | Some e \<Rightarrow> - (2 ^ 31) \<le> e \<and> e < 2 ^ 31)
      \<and> (case sequence msg of None \<Rightarrow> True | Some s \<Rightarrow> - (2 ^ 31) \<le> s \<and> s < 2 ^ 31)
      \<and> (case errorCode msg of None \<Rightarrow> True | Some c \<Rightarrow> 0 \<le> c \<and> c < 2 ^ 32)
      \<and> (case sessionId msg of None \<Rightarrow> True | Some s \<Rightarrow> length (utf8_encode s) < 2 ^ 32)
      \<and> length (payload msg) < 2 ^ 32)"

text \<open>The bytes Scenario A of the specification gives for the StartSession frame.\<close>

definition scenarioA_claimed :: bytes where
  "scenarioA_claimed =
     [0x01, 0x14, 0x01] @ [0x00, 0x00, 0x00, 0x64]
     @ [0x00, 0x00, 0x00, 0x03, 0x61, 0x62, 0x63] @ [0x00, 0x00, 0x00, 0x02, 0x7b, 0x7d]"

section \<open>Notions the statements use\<close>

text \<open>\<^verbatim>\<open>unmarshalMessage(marshalMessage(msg))\<close>.\<close>

definition roundtrip :: "Message \<Rightarrow> error + Message" where
  "roundtrip msg =
     (case marshalMessage msg of Inl e \<Rightarrow> Inl e | Inr data \<Rightarrow> unmarshalMessage data)"

text \<open>
  What readSessionId makes of the bytes writeSessionId writes for a session id: a length
  of zero leaves the field unset, and other bytes go through the decoder.
\<close>

definition wire_sessionId :: "jsstring option \<Rightarrow> jsstring option" where
  "wire_sessionId sid =
     (case sid of
        None \<Rightarrow> None
      | Some s \<Rightarrow> if s = [] then None else Some (utf8_decode (utf8_encode s)))"

text \<open>
  Of a run of the demultiplexer: the messages of the frames that arrive and decode, in
  their order of arrival; the ReceiveMessage calls, in the order they are made; and the
  calls the run resolves with the message each one returns, in the order they resolve.
\<close>

fun arrived :: "action list \<Rightarrow> Message list" where
  "arrived [] = []"
| "arrived (FrameArrived data # as) =
     (case unmarshalMessage data of Inl e \<Rightarrow> arrived as | Inr msg \<Rightarrow> msg # arrived as)"
| "arrived (Receive resolver # as) = arrived as"
| "arrived (SocketError # as) = arrived as"

fun receivers :: "action list \<Rightarrow> nat list" where
  "receivers [] = []"
| "receivers (FrameArrived data # as) = receivers as"
| "receivers (Receive resolver # as) = resolver # receivers as"
| "receivers (SocketError # as) = receivers as"

fun resolutions :: "notice list \<Rightarrow> (nat \<times> Message) list" where
  "resolutions [] = []"
| "resolutions (Resolved resolver msg # ns) = (resolver, msg) # resolutions ns"
| "resolutions (Rejected resolver # ns) = resolutions ns"
| "resolutions (HandlerThrew e # ns) = resolutions ns"

text \<open>A socket on which ReceiveMessage has been called and nothing is queued or pending.\<close>

definition idleDemux :: Demux where
  "idleDemux = \<lparr> installed = True, messageQueue = [], messageCallbacks = [] \<rparr>"

text \<open>
  Which of the writers getWriters selects push a field, in the order of the list: the
  loop of marshalMessage pushes what a writer returns unless it is \<^verbatim>\<open>null\<close>.
\<close>

definition written :: "Message \<Rightarrow> error + bool list" where
  "written msg =
     (case getWriters msg of
        Inl e \<Rightarrow> Inl e
      | Inr writers \<Rightarrow> Inr (map (\<lambda>w. w msg \<noteq> None) writers))"

text \<open>
  A frame is exact when unmarshalMessage accepts it and its last reader stops at the end
  of the buffer: nothing is missing and nothing follows the payload.
\<close>

definition exact_frame :: "bytes \<Rightarrow> bool" where
  "exact_frame data =
     (case unmarshalState data of Inl e \<Rightarrow> False | Inr (msg, offset) \<Rightarrow> offset = length data)"

text \<open>
  What cutting a buffer to its first \<open>n\<close> bytes does to a reader that succeeded on the
  whole buffer: it never moves backwards; if it stopped within the first \<open>n\<close> bytes it
  gives the same result on the cut buffer; otherwise it either fails there with
  TruncatedField or is a reader that read nothing.
\<close>

definition cut_stable :: "reader \<Rightarrow> bool" where
  "cut_stable r =
     (\<forall>msg data offset msg' offset' n.
        r msg data offset = Inr (msg', offset') \<and> n \<le> length data \<longrightarrow>
          offset \<le> offset'
          \<and> (offset' \<le> n \<longrightarrow> r msg (take n data) offset = Inr (msg', offset'))
          \<and> (n < offset' \<longrightarrow>
                (\<exists>f. r msg (take n data) offset = Inl (TruncatedField f))
                \<or> (offset' = offset \<and> r msg (take n data) offset = Inr (msg', offset'))))"

section \<open>Example messages and frames\<close>

text \<open>The message of Scenario A.\<close>

definition scenarioA_message :: Message where
  "scenarioA_message = StartSession_message (utf8_encode [0x7b, 0x7d]) [0x61, 0x62, 0x63]"

text \<open>The frame marshalMessage produces for Scenario A.\<close>

definition scenarioA_frame :: bytes where
  "scenarioA_frame =
     [0x11, 0x14, 0x10, 0x00, 0x00, 0x00, 0x00, 0x64,
      0x00, 0x00, 0x00, 0x03, 0x61, 0x62, 0x63, 0x00, 0x00, 0x00, 0x02, 0x7b, 0x7d]"

text \<open>Example messages and frames used to instantiate the theorems.\<close>

definition status_message :: Message where
  "status_message = createMessage MsgType_FullServerResponse NoSeq"

definition audio_message :: "bytes \<Rightarrow> Message" where
  "audio_message pl = (createMessage MsgType_AudioOnlyServer NoSeq)\<lparr>payload := pl\<rparr>"

definition finished_message :: Message where
  "finished_message =
     (createMessage MsgType_FullServerResponse WithEvent)
       \<lparr>event := Some SessionFinished, sessionId := Some [0x61, 0x62, 0x63]\<rparr>"

definition error_message :: Message where
  "error_message = (createMessage MsgType_Error NoSeq)\<lparr>errorCode := Some 7\<rparr>"

text \<open>An AudioOnlyServer frame with flag PositiveSeq, sequence 5 and two bytes of payload,
  and a status frame with an empty payload.\<close>

definition audio_frame :: bytes where
  "audio_frame = [0x11, 0xB1, 0x10, 0x00, 0x00, 0x00, 0x00, 0x05, 0x00, 0x00, 0x00, 0x02, 0xAA, 0xBB]"

definition audio_frame_message :: Message where
  "audio_frame_message =
     (createMessage MsgType_AudioOnlyServer PositiveSeq)
       \<lparr>sequence := Some 5, payload := [0xAA, 0xBB]\<rparr>"

definition status_frame :: bytes where
  "status_frame = [0x11, 0x90, 0x10, 0x00, 0x00, 0x00, 0x00, 0x00]"

text \<open>Messages on which the round trip as the specification states it fails.\<close>

definition connection_started_message :: Message where
  "connection_started_message =
     (createMessage MsgType_FullServerResponse WithEvent)
       \<lparr>event := Some ConnectionStarted, payload := utf8_encode [0x7b, 0x7d]\<rparr>"

definition connection_finished_message :: Message where
  "connection_finished_message =
     (createMessage MsgType_FullServerResponse WithEvent)
       \<lparr>event := Some ConnectionFinished, sessionId := Some [0x61, 0x62, 0x63],
        payload := utf8_encode [0x7b, 0x7d]\<rparr>"

definition empty_session_message :: Message where
  "empty_session_message = StartSession_message (utf8_encode [0x7b, 0x7d]) []"

text \<open>A session id that begins with U+FEFF, and one that is the lone surrogate U+D800.\<close>

definition bom_session_message :: Message where
  "bom_session_message = StartSession_message (utf8_encode [0x7b, 0x7d]) [0xFEFF, 0x61, 0x62]"

definition surrogate_session_message :: Message where
  "surrogate_session_message = StartSession_message (utf8_encode [0x7b, 0x7d]) [0xD800]"

definition error_event_message :: Message where
  "error_event_message =
     (createMessage MsgType_Error WithEvent)
       \<lparr>event := Some StartSession, sessionId := Some [0x61, 0x62, 0x63], errorCode := Some 7,
        payload := utf8_encode [0x7b, 0x7d]\<rparr>"

text \<open>The frame marshalMessage produces for the StartSession message with an empty
  session id.\<close>

definition empty_session_frame :: bytes where
  "empty_session_frame =
     [0x11, 0x14, 0x10, 0x00, 0x00, 0x00, 0x00, 0x64,
      0x00, 0x00, 0x00, 0x00, 0x00, 0x00, 0x00, 0x02, 0x7b, 0x7d]"

text \<open>The messages \<^verbatim>\<open>AudioOnlyClient(ws, payload, PositiveSeq)\<close> marshals, which has no
  sequence, the same message with a sequence, and an Error message with no error code.\<close>

definition audio_client_message :: Message where
  "audio_client_message = AudioOnlyClient_message [0xAA, 0xBB] PositiveSeq"

definition audio_client_message_seq :: Message where
  "audio_client_message_seq = audio_client_message\<lparr>sequence := Some 5\<rparr>"

definition error_message_no_code :: Message where
  "error_message_no_code = createMessage MsgType_Error NoSeq"

section \<open>Arithmetic of the wire format\<close>

lemma unat_byte_of_nat: "unat (of_nat n :: byte) = n mod 256"
  by (simp add: unat_of_nat)

lemma be32_value:
  fixes n :: nat
  assumes "n < 2 ^ 32"
  shows "(n div 2 ^ 24) mod 256 * 2 ^ 24 + (n div 2 ^ 16) mod 256 * 2 ^ 16
         + (n div 2 ^ 8) mod 256 * 2 ^ 8 + n mod 256 = n"
proof -
  define n1 where "n1 = n div 256"
  define n2 where "n2 = n1 div 256"
  define n3 where "n3 = n2 div 256"
  have d1: "n div 2 ^ 8 = n1" by (simp add: n1_def)
  have d2: "n div 2 ^ 16 = n2" by (simp add: n1_def n2_def div_mult2_eq)
  have d3: "n div 2 ^ 24 = n3" by (simp add: n1_def n2_def n3_def div_mult2_eq)
  have e0: "n = n1 * 256 + n mod 256" by (simp add: n1_def)
  have e1: "n1 = n2 * 256 + n1 mod 256" by (simp add: n2_def)
  have e2: "n2 = n3 * 256 + n2 mod 256" by (simp add: n3_def)
  have "n3 < 256" using assms unfolding d3 [symmetric] by (simp add: less_mult_imp_div_less)
  then have e3: "n3 mod 256 = n3" by simp
  have "n3 * 2 ^ 24 + (n2 mod 256) * 2 ^ 16 + (n1 mod 256) * 2 ^ 8 + n mod 256 = n"
    using e0 e1 e2 by simp
  then show ?thesis by (simp only: d1 d2 d3 e3)
qed

lemma getUint32_append:
  "getUint32 (pre @ [a, b, c, d] @ rest) (length pre)
   = unat a * 2 ^ 24 + unat b * 2 ^ 16 + unat c * 2 ^ 8 + unat d"
  by (simp add: getUint32_def nth_append)

lemma getUint32_setUint32:
  "n < 2 ^ 32 \<Longrightarrow> getUint32 (pre @ setUint32 n @ rest) (length pre) = n"
  unfolding setUint32_def getUint32_append unat_byte_of_nat
  by (rule be32_value)

lemmas utf8_eval = utf8_encode_def utf8_bytes_def utf8_decode_def utf8_idle_def
  startSequence_def utf16_units_def stripBOM_def

lemma codePoints_Nil_iff [simp]: "codePoints us = [] \<longleftrightarrow> us = []"
  by (cases us rule: codePoints.cases) simp_all

lemma utf8_bytes_not_Nil [simp]: "utf8_bytes c \<noteq> []"
  by (simp add: utf8_bytes_def)

lemma utf8_encode_Nil_iff [simp]: "utf8_encode s = [] \<longleftrightarrow> s = []"
  by (simp add: utf8_encode_def)

lemma utf8_decode_Nil [simp]: "utf8_decode [] = []"
  by (simp add: utf8_decode_def utf8_idle_def stripBOM_def)

lemma utf8_encode_Nil [simp]: "utf8_encode [] = []"
  by (simp add: utf8_encode_def)

lemma codePoints_ascii: "\<forall>u \<in> set us. u < 0x80 \<Longrightarrow> codePoints us = us"
  by (induction us rule: codePoints.induct) auto

lemma decodeUtf8_ascii:
  "\<forall>b \<in> set bs. b < 0x80 \<Longrightarrow> decodeUtf8 utf8_idle bs = bs"
  by (induction bs) (simp_all add: utf8_idle_def startSequence_def)

lemma concat_map_single: "concat (map (\<lambda>x. [f x]) xs) = map f xs"
  by (induction xs) simp_all

lemma utf8_encode_ascii:
  assumes "\<forall>u \<in> set s. u < 0x80"
  shows "utf8_encode s = map (\<lambda>u. of_nat (unat u)) s"
proof -
  have small: "\<forall>c \<in> set (map unat s). c < 0x80"
    using assms by (auto simp add: word_less_nat_alt)
  have "concat (map utf8_bytes (map unat s)) = map (\<lambda>u. of_nat (unat u)) s"
    using small by (induction s) (simp_all add: utf8_bytes_def)
  then show ?thesis by (simp add: utf8_encode_def codePoints_ascii [OF small])
qed

lemma utf8_decode_ascii:
  assumes "\<forall>b \<in> set bs. b < 0x80"
  shows "utf8_decode (map of_nat bs) = map of_nat bs"
proof -
  have u: "map unat (map of_nat bs :: bytes) = bs"
    using assms by (induction bs) (simp_all add: unat_of_nat)
  have st: "stripBOM bs = bs" using assms by (cases bs) (auto simp add: stripBOM_def)
  have "concat (map utf16_units bs) = map of_nat bs"
    using assms by (induction bs) (simp_all add: utf16_units_def)
  then show ?thesis
    unfolding utf8_decode_def u decodeUtf8_ascii [OF assms] st .
qed

lemma utf8_roundtrip_ascii:
  assumes "\<forall>u \<in> set s. u < 0x80"
  shows "utf8_decode (utf8_encode s) = s"
proof -
  have small: "\<forall>c \<in> set (map unat s). c < 0x80"
    using assms by (auto simp add: word_less_nat_alt)
  have "utf8_encode s = map of_nat (map unat s)"
    by (simp add: utf8_encode_ascii [OF assms])
  then have "utf8_decode (utf8_encode s) = map of_nat (map unat s)"
    using utf8_decode_ascii [OF small] by simp
  then show ?thesis by (simp add: comp_def)
qed

lemma slice_append: "slice (pre @ xs @ rest) (length pre) (length pre + length xs) = xs"
  by (simp add: slice_def)

lemma nibble_hi_aux:
  "drop_bit 4 (take_bit 8 (push_bit 4 (take_bit 4 v) OR take_bit 4 h)) = take_bit 4 (v::nat)"
  by (rule bit_eqI) (auto simp add: bit_simps)

lemma nibble_lo_aux:
  "take_bit 8 (push_bit 4 (take_bit 4 v) OR take_bit 4 h) AND 15 = take_bit 4 (h::nat)"
proof -
  have m: "(15::nat) = mask 4" by (simp add: mask_eq_exp_minus_1)
  have "take_bit 4 (take_bit 8 (push_bit 4 (take_bit 4 v) OR take_bit 4 h)) = take_bit 4 h"
    by (rule bit_eqI) (auto simp add: bit_simps)
  then show ?thesis unfolding m take_bit_eq_mask [symmetric] .
qed

lemma nibble_hi:
  fixes v h :: nat
  assumes "v < 16" "h < 16"
  shows "drop_bit 4 (unat (of_nat (push_bit 4 v OR h) :: byte)) = v"
proof -
  have "take_bit 4 v = v" "take_bit 4 h = h" using assms by (simp_all add: take_bit_nat_eq_self)
  then show ?thesis using nibble_hi_aux [of v h] by (simp add: unsigned_of_nat)
qed

lemma nibble_lo:
  fixes v h :: nat
  assumes "v < 16" "h < 16"
  shows "unat (of_nat (push_bit 4 v OR h) :: byte) AND 15 = h"
proof -
  have "take_bit 4 v = v" "take_bit 4 h = h" using assms by (simp_all add: take_bit_nat_eq_self)
  then show ?thesis using nibble_lo_aux [of v h] by (simp add: unsigned_of_nat)
qed

lemma getInt32_setInt32:
  assumes "- (2 ^ 31) \<le> v" "v < 2 ^ 31"
  shows "getInt32 (pre @ setInt32 v @ rest) (length pre) = v"
proof -
  have lt: "nat (v mod 2 ^ 32) < 2 ^ 32" by simp
  have g: "getUint32 (pre @ setInt32 v @ rest) (length pre) = nat (v mod 2 ^ 32)"
    unfolding setInt32_def by (rule getUint32_setUint32 [OF lt])
  show ?thesis
  proof (cases "0 \<le> v")
    case True
    then have "v mod 2 ^ 32 = v" using assms by simp
    then show ?thesis using True assms by (simp add: getInt32_def g Let_def)
  next
    case False
    have "(v + 2 ^ 32) mod 2 ^ 32 = v + 2 ^ 32"
      using False assms by (intro mod_pos_pos_trivial) simp_all
    then have "v mod 2 ^ 32 = v + 2 ^ 32" by simp
    then show ?thesis using False assms by (simp add: getInt32_def g Let_def)
  qed
qed

section \<open>Scenario A\<close>

lemma replicate4: "replicate 4 x = [x, x, x, x]"
  by (simp add: numeral_eq_Suc)

lemma scenarioA_bytes:
  "marshalMessage scenarioA_message =
     Inr [0x11, 0x14, 0x10, 0x00, 0x00, 0x00, 0x00, 0x64,
          0x00, 0x00, 0x00, 0x03, 0x61, 0x62, 0x63, 0x00, 0x00, 0x00, 0x02, 0x7b, 0x7d]"
  by (simp add: marshalMessage_def scenarioA_message_def StartSession_message_def
      createMessage_def marshalHeader_def getWriters_def writeEvent_def writeSessionId_def
      writePayload_def setInt32_def setUint32_def utf8_eval replicate4)

text \<open>
  C2 (amended). The StartSession message with sessionId "abc" and payload \<open>{}\<close>, built on
  createMessage's version 1, header size 1, JSON serialization and no compression,
  marshals to the four header bytes \<open>11 14 10 00\<close> (each header byte packs two nibbles,
  and the header is padded to \<open>4 * headerSize\<close> bytes), then the event \<open>00 00 00 64\<close>,
  then the session id \<open>00 00 00 03 61 62 63\<close>, then the payload \<open>00 00 00 02 7b 7d\<close>.
\<close>

theorem scenarioA_encoding:
  "marshalMessage (StartSession_message (utf8_encode [0x7b, 0x7d]) [0x61, 0x62, 0x63]) =
     Inr ([0x11, 0x14, 0x10, 0x00] @ [0x00, 0x00, 0x00, 0x64]
          @ [0x00, 0x00, 0x00, 0x03, 0x61, 0x62, 0x63] @ [0x00, 0x00, 0x00, 0x02, 0x7b, 0x7d])"
  using scenarioA_bytes by (simp add: scenarioA_message_def)

text \<open>
  C2 as stated fails: the frame does not start with the three bytes \<open>01 14 01\<close> the
  specification gives.
\<close>

theorem scenarioA_counterexample:
  "marshalMessage scenarioA_message \<noteq> Inr scenarioA_claimed"
  using scenarioA_bytes by (simp add: scenarioA_claimed_def)

section \<open>The decoder read in order\<close>

lemma runReaders_append:
  "runReaders (rs @ rs') msg data offset =
     (case runReaders rs msg data offset of
        Inl e \<Rightarrow> Inl e
      | Inr (msg', offset') \<Rightarrow> runReaders rs' msg' data offset')"
  by (induction rs arbitrary: msg offset) (auto split: sum.splits)

lemma readSessionId_spec:
  "event msg = Some ev \<Longrightarrow>
   readSessionId msg data offset =
     (case (if decode_skips_sessionId ev then Inr (None, offset)
            else read_string_field SessionIdSize SessionIdBody data offset) of
        Inl e \<Rightarrow> Inl e
      | Inr (sid, offset') \<Rightarrow> Inr (set_sessionId sid msg, offset'))"
  by (simp add: readSessionId_def decode_skips_sessionId_def read_string_field_def Let_def
      add.assoc)

lemma readConnectId_spec:
  "event msg = Some ev \<Longrightarrow>
   readConnectId msg data offset =
     (case (if carries_connectId ev
            then read_string_field ConnectIdSize ConnectIdBody data offset
            else Inr (None, offset)) of
        Inl e \<Rightarrow> Inl e
      | Inr (cid, offset') \<Rightarrow> Inr (set_connectId cid msg, offset'))"
  by (simp add: readConnectId_def carries_connectId_def read_string_field_def Let_def
      add.assoc)

lemma readPayload_spec: "readPayload msg data offset = payload_field msg data offset"
  by (simp add: readPayload_def payload_field_def Let_def add.assoc)

lemma event_sessionId [simp]: "event (set_sessionId sid msg) = event msg"
  by (cases sid) simp_all

lemma event_readers_spec:
  "flag msg = WithEvent \<Longrightarrow>
   runReaders [readEvent, readSessionId, readConnectId] msg data offset
   = event_fields msg data offset"
  by (simp add: event_fields_def readEvent_def read_int32_def
      readSessionId_spec [where ev = "getInt32 data offset"]
      readConnectId_spec [where ev = "getInt32 data offset"]
      split: sum.splits prod.splits)

lemma first_reader_spec:
  "runReaders
     (if content_kind (type msg) then
        (if flag msg = PositiveSeq \<or> flag msg = NegativeSeq then [readSequence] else [])
      else [readErrorCode]) msg data offset
   = (if content_kind (type msg) \<or> type msg = MsgType_Error then first_field msg data offset
      else readErrorCode msg data offset)"
  by (simp add: first_field_def readSequence_def read_int32_def readErrorCode_def)

lemma getReaders_spec:
  "getReaders msg =
     (if content_kind (type msg) \<or> type msg = MsgType_Error
      then Inr ((if content_kind (type msg) then
                   (if flag msg = PositiveSeq \<or> flag msg = NegativeSeq then [readSequence] else [])
                 else [readErrorCode])
                @ (if flag msg = WithEvent then [readEvent, readSessionId, readConnectId] else [])
                @ [readPayload])
      else Inl (UnsupportedMessageType (type msg)))"
  by (auto simp add: getReaders_def content_kind_def Let_def)

lemma runReaders_single: "runReaders [r] msg data offset = r msg data offset"
  by (simp split: sum.splits prod.splits)

lemma first_field_flag:
  "first_field msg data offset = Inr (msg1, offset1) \<Longrightarrow> flag msg1 = flag msg"
  by (auto simp add: first_field_def read_int32_def split: if_splits)

lemma tail_readers_spec:
  assumes "flag msg1 = flag msg"
  shows "runReaders ((if flag msg = WithEvent then [readEvent, readSessionId, readConnectId]
                      else []) @ [readPayload]) msg1 data offset1
         = (case event_fields msg1 data offset1 of
              Inl e \<Rightarrow> Inl e
            | Inr (msg2, offset2) \<Rightarrow> payload_field msg2 data offset2)"
proof (cases "flag msg = WithEvent")
  case True
  then have "flag msg1 = WithEvent" using assms by simp
  from event_readers_spec [OF this] True show ?thesis
    by (simp only: runReaders_append if_True)
       (simp add: readPayload_spec split: sum.splits prod.splits)
next
  case False
  then have "event_fields msg1 data offset1 = Inr (msg1, offset1)"
    using assms by (simp add: event_fields_def)
  then show ?thesis using False
    by (simp add: readPayload_spec runReaders_single del: runReaders.simps)
qed

lemma unmarshalState_spec:
  assumes "3 \<le> length data"
  shows "unmarshalState data =
     (let header = unmarshalHeader data
      in case first_field header data (4 * headerSize header) of
           Inl e \<Rightarrow> Inl e
         | Inr (msg1, offset1) \<Rightarrow>
             (case event_fields msg1 data offset1 of
                Inl e \<Rightarrow> Inl e
              | Inr (msg2, offset2) \<Rightarrow> payload_field msg2 data offset2))"
proof -
  define h where "h = unmarshalHeader data"
  show ?thesis
  proof (cases "content_kind (type h) \<or> type h = MsgType_Error")
    case False
    then show ?thesis using assms
      by (simp add: unmarshalState_def getReaders_spec first_field_def h_def [symmetric]
          Let_def)
  next
    case True
    have "unmarshalState data =
            (case first_field h data (4 * headerSize h) of
               Inl e \<Rightarrow> Inl e
             | Inr (msg1, offset1) \<Rightarrow>
                 runReaders ((if flag h = WithEvent
                              then [readEvent, readSessionId, readConnectId] else [])
                             @ [readPayload]) msg1 data offset1)"
      using assms True first_reader_spec [of h data "4 * headerSize h"]
      by (simp add: unmarshalState_def getReaders_spec h_def [symmetric] Let_def
          runReaders_append del: runReaders.simps)
    also have "\<dots> = (case first_field h data (4 * headerSize h) of
           Inl e \<Rightarrow> Inl e
         | Inr (msg1, offset1) \<Rightarrow>
             (case event_fields msg1 data offset1 of
                Inl e \<Rightarrow> Inl e
              | Inr (msg2, offset2) \<Rightarrow> payload_field msg2 data offset2))"
    proof (cases "first_field h data (4 * headerSize h)")
      case (Inl e)
      then show ?thesis by simp
    next
      case (Inr p)
      obtain msg1 offset1 where p: "p = (msg1, offset1)" by (cases p)
      from Inr p have "flag msg1 = flag h" by (auto dest: first_field_flag)
      from tail_readers_spec [OF this] show ?thesis by (simp only: Inr p sum.case prod.case)
    qed
    finally show ?thesis by (simp add: h_def Let_def)
  qed
qed

lemma slice_Cons: "slice (x # xs) (Suc a) (Suc b) = slice xs a b"
  by (simp add: slice_def)

lemma unmarshalHeader_scenarioA:
  "unmarshalHeader scenarioA_frame = createMessage MsgType_FullClientRequest WithEvent"
  by (simp add: unmarshalHeader_def scenarioA_frame_def createMessage_def Let_def)

lemma decode_in_order_scenarioA: "decode_in_order scenarioA_frame = Inr scenarioA_message"
  apply (simp add: decode_in_order_def unmarshalHeader_scenarioA)
  apply (simp add: createMessage_def first_field_def content_kind_def event_fields_def
      read_int32_def getInt32_def getUint32_def scenarioA_frame_def decode_skips_sessionId_def
      carries_connectId_def read_string_field_def payload_field_def slice_def utf8_eval
      scenarioA_message_def StartSession_message_def)
  done

section \<open>Decoding the example frames\<close>

lemma unmarshalMessage_eq_decode: "unmarshalMessage data = decode_in_order data"
proof (cases "length data < 3")
  case True
  then show ?thesis by (simp add: unmarshalMessage_def unmarshalState_def decode_in_order_def)
next
  case False
  then have "3 \<le> length data" by simp
  from unmarshalState_spec [OF this] False show ?thesis
    by (simp add: unmarshalMessage_def decode_in_order_def Let_def
        split: sum.splits prod.splits)
qed

lemma unmarshalMessage_scenarioA: "unmarshalMessage scenarioA_frame = Inr scenarioA_message"
  by (simp only: unmarshalMessage_eq_decode decode_in_order_scenarioA)

lemma unmarshalMessage_audio_frame: "unmarshalMessage audio_frame = Inr audio_frame_message"
  unfolding unmarshalMessage_eq_decode
  apply (simp add: decode_in_order_def audio_frame_def unmarshalHeader_def)
  apply (simp add: first_field_def content_kind_def event_fields_def
      read_int32_def getInt32_def getUint32_def payload_field_def slice_def
      audio_frame_message_def createMessage_def)
  done

lemma unmarshalMessage_status_frame: "unmarshalMessage status_frame = Inr status_message"
  unfolding unmarshalMessage_eq_decode
  apply (simp add: decode_in_order_def status_frame_def unmarshalHeader_def)
  apply (simp add: first_field_def content_kind_def event_fields_def
      getUint32_def payload_field_def status_message_def createMessage_def)
  done

text \<open>
  C4. For every buffer (of at least three bytes, and shorter ones fail with FrameTooShort
  on both sides) unmarshalMessage is the decoder that reads in this order: first the
  sequence, if the kind carries content and the flag is PositiveSeq or NegativeSeq, or
  the error code if the kind is Error, any other kind failing with
  UnsupportedMessageType; second, if the flag is WithEvent, the event, then the session
  id unless the event is StartConnection, FinishConnection, ConnectionStarted,
  ConnectionFailed or ConnectionFinished, then the connect id if the event is
  ConnectionStarted, ConnectionFailed or ConnectionFinished; last the length-prefixed
  payload.
\<close>

theorem unmarshal_in_order: "unmarshalMessage data = decode_in_order data"
proof (cases "length data < 3")
  case True
  then have "unmarshalState data = Inl (FrameTooShort (length data))"
    by (simp add: unmarshalState_def)
  with True show ?thesis by (simp add: unmarshalMessage_def decode_in_order_def)
next
  case False
  then have "3 \<le> length data" by simp
  from unmarshalState_spec [OF this]
  have "unmarshalState data =
     (let header = unmarshalHeader data
      in case first_field header data (4 * headerSize header) of
           Inl e \<Rightarrow> Inl e
         | Inr (msg1, offset1) \<Rightarrow>
             (case event_fields msg1 data offset1 of
                Inl e \<Rightarrow> Inl e
              | Inr (msg2, offset2) \<Rightarrow> payload_field msg2 data offset2))" .
  with False show ?thesis
    by (simp add: unmarshalMessage_def decode_in_order_def Let_def
        split: sum.splits prod.splits)
qed

theorem unmarshal_in_order_witness:
  "3 \<le> length scenarioA_frame
   \<and> unmarshalMessage scenarioA_frame = decode_in_order scenarioA_frame
   \<and> decode_in_order scenarioA_frame = Inr scenarioA_message"
  using unmarshal_in_order [of scenarioA_frame] decode_in_order_scenarioA
  by (simp add: scenarioA_frame_def)

section \<open>Connection demultiplexer\<close>

lemma step_at_most_one:
  assumes "messageQueue s = [] \<or> messageCallbacks s = []"
  shows "messageQueue (fst (step s a)) = [] \<or> messageCallbacks (fst (step s a)) = []"
proof (cases a)
  case (FrameArrived data)
  then show ?thesis using assms
    by (auto simp add: onFrameArrived_def messageHandler_def split: sum.splits list.splits)
next
  case (Receive resolver)
  then show ?thesis using assms
    by (auto simp add: ReceiveMessage_def setupMessageHandler_def split: list.splits)
next
  case SocketError
  then show ?thesis by (simp add: onSocketError_def)
qed

lemma fst_run_Cons: "fst (run s (a # as)) = fst (run (fst (step s a)) as)"
  by (simp split: prod.splits)

lemma snd_run_Cons: "snd (run s (a # as)) = snd (step s a) @ snd (run (fst (step s a)) as)"
  by (simp split: prod.splits)

lemma run_at_most_one:
  "messageQueue s = [] \<or> messageCallbacks s = [] \<Longrightarrow>
   messageQueue (fst (run s as)) = [] \<or> messageCallbacks (fst (run s as)) = []"
proof (induction as arbitrary: s)
  case Nil
  then show ?case by simp
next
  case (Cons a as)
  from Cons.IH [OF step_at_most_one [OF Cons.prems]] show ?case
    by (simp only: fst_run_Cons)
qed

text \<open>
  C6 (amended). In every state the demultiplexer reaches from a new socket by frame
  arrivals, ReceiveMessage calls and socket errors in any order, at most one of the
  message queue and the waiter list is non-empty.
\<close>

theorem demux_at_most_one:
  "messageQueue (fst (run initialDemux as)) = []
   \<or> messageCallbacks (fst (run initialDemux as)) = []"
proof -
  have "messageQueue initialDemux = [] \<or> messageCallbacks initialDemux = []"
    by (simp add: initialDemux_def)
  then show ?thesis by (rule run_at_most_one)
qed

lemmas demux_eval = initialDemux_def idleDemux_def onFrameArrived_def messageHandler_def
  ReceiveMessage_def setupMessageHandler_def unmarshalMessage_scenarioA
  unmarshalMessage_audio_frame unmarshalMessage_status_frame

theorem demux_at_most_one_witness:
  "(messageQueue (fst (run initialDemux [Receive 0, FrameArrived scenarioA_frame, FrameArrived audio_frame])) = []
    \<or> messageCallbacks (fst (run initialDemux [Receive 0, FrameArrived scenarioA_frame, FrameArrived audio_frame])) = [])
   \<and> fst (run initialDemux [Receive 0, FrameArrived scenarioA_frame, FrameArrived audio_frame])
       = \<lparr>installed = True, messageQueue = [audio_frame_message], messageCallbacks = []\<rparr>
   \<and> fst (run initialDemux [Receive 0, Receive 1])
       = \<lparr>installed = True, messageQueue = [], messageCallbacks = [0, 1]\<rparr>"
  using demux_at_most_one [of "[Receive 0, FrameArrived scenarioA_frame, FrameArrived audio_frame]"]
  by (simp add: demux_eval)

text \<open>
  C6 as stated fails: on a new socket, before any call, the queue and the waiter list
  are both empty, so it is not the case that exactly one is non-empty. They are both
  empty again after a pending call has been resolved by the one frame that arrived.
\<close>

theorem demux_exactly_one_counterexample:
  "\<not> exactly_one_nonempty (fst (run initialDemux []))
   \<and> \<not> exactly_one_nonempty (fst (run initialDemux [Receive 0, FrameArrived scenarioA_frame]))"
  by (simp add: exactly_one_nonempty_def demux_eval)

lemma resolutions_append: "resolutions (ns @ ns') = resolutions ns @ resolutions ns'"
  by (induction ns rule: resolutions.induct) simp_all

lemma run_fifo:
  assumes "installed s" "messageQueue s = [] \<or> messageCallbacks s = []"
    "SocketError \<notin> set as"
  shows "resolutions (snd (run s as))
         = zip (messageCallbacks s @ receivers as) (messageQueue s @ arrived as)"
  using assms
proof (induction as arbitrary: s)
  case Nil
  then show ?case by auto
next
  case (Cons a as)
  define s' where "s' = fst (step s a)"
  have noerr: "SocketError \<notin> set as" and a: "a \<noteq> SocketError" using Cons.prems(3) by auto
  have inst: "installed s'"
    using Cons.prems(1)
    by (cases a)
       (auto simp add: s'_def onFrameArrived_def messageHandler_def ReceiveMessage_def
          setupMessageHandler_def onSocketError_def split: sum.splits list.splits)
  have inv: "messageQueue s' = [] \<or> messageCallbacks s' = []"
    unfolding s'_def using Cons.prems(2) by (rule step_at_most_one)
  have IH: "resolutions (snd (run s' as))
            = zip (messageCallbacks s' @ receivers as) (messageQueue s' @ arrived as)"
    using inst inv noerr by (rule Cons.IH)
  have r: "resolutions (snd (run s (a # as)))
           = resolutions (snd (step s a))
             @ zip (messageCallbacks s' @ receivers as) (messageQueue s' @ arrived as)"
    by (simp only: snd_run_Cons resolutions_append s'_def [symmetric] IH)
  show ?case
  proof (cases a)
    case (FrameArrived data)
    show ?thesis
    proof (cases "unmarshalMessage data")
      case (Inl e)
      then show ?thesis using FrameArrived Cons.prems(1)
        unfolding r by (simp add: s'_def onFrameArrived_def messageHandler_def)
    next
      case (Inr msg)
      show ?thesis
      proof (cases "messageCallbacks s")
        case Nil
        then show ?thesis using FrameArrived Inr Cons.prems(1)
          unfolding r by (simp add: s'_def onFrameArrived_def messageHandler_def)
      next
        case (Cons callback callbacks)
        then have "messageQueue s = []" using Cons.prems(2) by simp
        then show ?thesis using FrameArrived Inr Cons Cons.prems(1)
          unfolding r by (simp add: s'_def onFrameArrived_def messageHandler_def)
      qed
    qed
  next
    case (Receive resolver)
    have su: "setupMessageHandler s = s" using Cons.prems(1) by (simp add: setupMessageHandler_def)
    show ?thesis
    proof (cases "messageQueue s")
      case Nil
      then show ?thesis using Receive
        unfolding r by (simp add: s'_def ReceiveMessage_def su)
    next
      case (Cons msg queue)
      then have "messageCallbacks s = []" using Cons.prems(2) by simp
      then show ?thesis using Receive Cons
        unfolding r by (simp add: s'_def ReceiveMessage_def su)
    qed
  next
    case SocketError
    then show ?thesis using a by simp
  qed
qed

lemma run_frames_lost:
  "\<not> installed s \<Longrightarrow> run s (map FrameArrived ds @ as) = run s as"
  by (induction ds) (simp_all add: onFrameArrived_def)

lemma run_first_call:
  assumes "SocketError \<notin> set as"
  shows "resolutions (snd (run initialDemux (Receive r # as)))
         = zip (r # receivers as) (arrived as)"
proof -
  define s where "s = fst (step initialDemux (Receive r))"
  have s: "installed s" "messageQueue s = []" "messageCallbacks s = [r]"
    "snd (step initialDemux (Receive r)) = []"
    by (simp_all add: s_def initialDemux_def ReceiveMessage_def setupMessageHandler_def)
  have "resolutions (snd (run s as))
        = zip (messageCallbacks s @ receivers as) (messageQueue s @ arrived as)"
    using s(1) _ assms by (rule run_fifo) (simp add: s)
  then show ?thesis
    by (simp only: snd_run_Cons resolutions_append s s_def [symmetric]) simp
qed

text \<open>
  C7 (amended). Once ReceiveMessage has been called on a socket, delivery is first in,
  first out as long as no socket error occurs: from a state with the listener registered
  and not both lists non-empty, the calls a run resolves, in the order they resolve, are
  the pending and the new calls in their order, each with the message of the same rank
  among the queued messages and the frames that arrive and decode. On a new socket the
  frames that arrive before the first call are lost, and from the first call on the
  calls are paired with the frames that arrive after it, in order.
\<close>

theorem demux_fifo:
  "(installed s \<and> (messageQueue s = [] \<or> messageCallbacks s = []) \<and> SocketError \<notin> set as
    \<longrightarrow> resolutions (snd (run s as))
        = zip (messageCallbacks s @ receivers as) (messageQueue s @ arrived as))
   \<and> (SocketError \<notin> set as
    \<longrightarrow> resolutions (snd (run initialDemux (map FrameArrived ds @ Receive r # as)))
        = zip (r # receivers as) (arrived as))"
proof (intro conjI impI)
  assume "installed s \<and> (messageQueue s = [] \<or> messageCallbacks s = []) \<and> SocketError \<notin> set as"
  then show "resolutions (snd (run s as))
        = zip (messageCallbacks s @ receivers as) (messageQueue s @ arrived as)"
    using run_fifo [of s as] by simp
next
  assume "SocketError \<notin> set as"
  then have "resolutions (snd (run initialDemux (Receive r # as)))
        = zip (r # receivers as) (arrived as)"
    by (rule run_first_call)
  moreover have "run initialDemux (map FrameArrived ds @ Receive r # as)
        = run initialDemux (Receive r # as)"
    by (rule run_frames_lost) (simp add: initialDemux_def)
  ultimately show "resolutions (snd (run initialDemux (map FrameArrived ds @ Receive r # as)))
        = zip (r # receivers as) (arrived as)"
    by (simp only:)
qed

theorem demux_fifo_witness:
  "installed idleDemux \<and> (messageQueue idleDemux = [] \<or> messageCallbacks idleDemux = [])
   \<and> SocketError \<notin> set [FrameArrived scenarioA_frame, FrameArrived audio_frame,
                          FrameArrived status_frame, Receive 1, Receive 2, Receive 3]
   \<and> resolutions (snd (run idleDemux
        [FrameArrived scenarioA_frame, FrameArrived audio_frame, FrameArrived status_frame,
         Receive 1, Receive 2, Receive 3]))
      = [(1, scenarioA_message), (2, audio_frame_message), (3, status_message)]
   \<and> run idleDemux
        [FrameArrived scenarioA_frame, FrameArrived audio_frame, FrameArrived status_frame,
         Receive 1, Receive 2, Receive 3]
      = (idleDemux,
         [Resolved 1 scenarioA_message, Resolved 2 audio_frame_message,
          Resolved 3 status_message])
   \<and> resolutions (snd (run initialDemux
        (map FrameArrived [status_frame]
         @ Receive 0 # [FrameArrived scenarioA_frame, FrameArrived audio_frame])))
      = [(0, scenarioA_message)]
   \<and> run initialDemux [Receive 0, FrameArrived scenarioA_frame, FrameArrived audio_frame]
      = (idleDemux\<lparr>messageQueue := [audio_frame_message]\<rparr>, [Resolved 0 scenarioA_message])"
  using demux_fifo [of idleDemux
      "[FrameArrived scenarioA_frame, FrameArrived audio_frame, FrameArrived status_frame,
        Receive 1, Receive 2, Receive 3]" "[status_frame]" 0]
    demux_fifo [of idleDemux "[FrameArrived scenarioA_frame, FrameArrived audio_frame]"
      "[status_frame]" 0]
  by (simp add: demux_eval)

text \<open>
  C7 as stated fails on a new socket: three frames that arrive before the first
  ReceiveMessage call find no listener and are lost, and the three calls that follow are
  left pending; none of them returns.
\<close>

theorem demux_fifo_counterexample:
  "unmarshalMessage scenarioA_frame = Inr scenarioA_message
   \<and> unmarshalMessage audio_frame = Inr audio_frame_message
   \<and> unmarshalMessage status_frame = Inr status_message
   \<and> run initialDemux
        [FrameArrived scenarioA_frame, FrameArrived audio_frame, FrameArrived status_frame,
         Receive 1, Receive 2, Receive 3]
      = (\<lparr>installed = True, messageQueue = [], messageCallbacks = [1, 2, 3]\<rparr>, [])"
  by (simp add: demux_eval)

section \<open>Session protocol\<close>

text \<open>
  C9. WaitForEvent reads exactly one message: it returns its result together with all
  later messages unread, and stays suspended when there is none. The result is the
  message when its kind and event are the expected ones, and otherwise the
  UnexpectedMessage error carrying the kind of the message read and its event (0, the
  event None, when the message has no event).
\<close>

theorem WaitForEvent_one_message:
  "WaitForEvent (msg # rest) msgType eventType =
     (if type msg = msgType \<and> event msg = Some eventType then Some (Inr msg)
      else Some (Inl (UnexpectedMessage (type msg)
                        (case event msg of None \<Rightarrow> 0 | Some e \<Rightarrow> e))), rest)
   \<and> WaitForEvent [] msgType eventType = (None, [])"
proof
  show "WaitForEvent (msg # rest) msgType eventType =
     (if type msg = msgType \<and> event msg = Some eventType then Some (Inr msg)
      else Some (Inl (UnexpectedMessage (type msg)
                        (case event msg of None \<Rightarrow> 0 | Some e \<Rightarrow> e))), rest)"
  proof (cases "type msg = msgType \<and> event msg = Some eventType")
    case True
    then show ?thesis by (simp add: WaitForEvent_def)
  next
    case False
    then have "type msg \<noteq> msgType \<or> event msg \<noteq> Some eventType" by simp
    then show ?thesis using False by (simp add: WaitForEvent_def)
  qed
  show "WaitForEvent [] msgType eventType = (None, [])"
    by (simp add: WaitForEvent_def)
qed

theorem WaitForEvent_one_message_witness:
  "WaitForEvent [finished_message, status_message] MsgType_FullServerResponse SessionFinished
     = (Some (Inr finished_message), [status_message])
   \<and> WaitForEvent [status_message, finished_message] MsgType_FullServerResponse SessionFinished
     = (Some (Inl (UnexpectedMessage MsgType_FullServerResponse 0)), [finished_message])
   \<and> WaitForEvent [finished_message] MsgType_FullServerResponse StartSession
     = (Some (Inl (UnexpectedMessage MsgType_FullServerResponse SessionFinished)), [])"
  using WaitForEvent_one_message [of finished_message "[status_message]"
      MsgType_FullServerResponse SessionFinished]
    WaitForEvent_one_message [of status_message "[finished_message]"
      MsgType_FullServerResponse SessionFinished]
    WaitForEvent_one_message [of finished_message "[]"
      MsgType_FullServerResponse StartSession]
  by (simp add: finished_message_def status_message_def createMessage_def)

lemma streamLoop_continue:
  assumes "\<forall>x \<in> set pre. type x = MsgType_AudioOnlyServer
             \<or> (type x = MsgType_FullServerResponse \<and> event x \<noteq> Some SessionFinished)"
  shows "streamLoop (pre @ xs) acc
         = streamLoop xs (acc @ map payload (filter (\<lambda>x. type x = MsgType_AudioOnlyServer) pre))"
  using assms by (induction pre arbitrary: acc) auto

text \<open>
  C8. On the arrivals status frame, audio A, audio B, SessionFinished frame, the loop
  reads exactly these four messages and the result is A followed by B; a message of any
  kind other than FullServerResponse and AudioOnlyServer, read after messages that let the
  loop go on, fails the call with that message and reads nothing more; and when the loop
  ends normally with no chunk in its buffer the call fails with EmptyResult.
\<close>

theorem streaming_loop:
  "(type m1 = MsgType_FullServerResponse \<and> event m1 \<noteq> Some SessionFinished
      \<and> type a = MsgType_AudioOnlyServer \<and> type b = MsgType_AudioOnlyServer
      \<and> type m4 = MsgType_FullServerResponse \<and> event m4 = Some SessionFinished
    \<longrightarrow> synthesizeSingle ([m1, a, b, m4] @ rest) = (Some (Inr (payload a @ payload b)), rest))
   \<and> ((\<forall>x \<in> set pre. type x = MsgType_AudioOnlyServer
           \<or> (type x = MsgType_FullServerResponse \<and> event x \<noteq> Some SessionFinished))
       \<and> type m \<noteq> MsgType_FullServerResponse \<and> type m \<noteq> MsgType_AudioOnlyServer
    \<longrightarrow> synthesizeSingle (pre @ m # rest') = (Some (Inl (ProtocolViolation m)), rest'))
   \<and> (streamLoop arrivals [] = (Some (Inr []), rest'') 
    \<longrightarrow> synthesizeSingle arrivals = (Some (Inl EmptyResult), rest''))"
proof (intro conjI impI)
  assume "type m1 = MsgType_FullServerResponse \<and> event m1 \<noteq> Some SessionFinished
      \<and> type a = MsgType_AudioOnlyServer \<and> type b = MsgType_AudioOnlyServer
      \<and> type m4 = MsgType_FullServerResponse \<and> event m4 = Some SessionFinished"
  then show "synthesizeSingle ([m1, a, b, m4] @ rest) = (Some (Inr (payload a @ payload b)), rest)"
    by (simp add: synthesizeSingle_def)
next
  assume h: "(\<forall>x \<in> set pre. type x = MsgType_AudioOnlyServer
           \<or> (type x = MsgType_FullServerResponse \<and> event x \<noteq> Some SessionFinished))
       \<and> type m \<noteq> MsgType_FullServerResponse \<and> type m \<noteq> MsgType_AudioOnlyServer"
  then show "synthesizeSingle (pre @ m # rest') = (Some (Inl (ProtocolViolation m)), rest')"
    using streamLoop_continue [of pre "m # rest'" "[]"] by (simp add: synthesizeSingle_def)
next
  assume "streamLoop arrivals [] = (Some (Inr []), rest'')"
  then show "synthesizeSingle arrivals = (Some (Inl EmptyResult), rest'')"
    by (simp add: synthesizeSingle_def)
qed

theorem streaming_loop_witness:
  "synthesizeSingle ([status_message, audio_message [1, 2], audio_message [3], finished_message]
               @ [status_message])
     = (Some (Inr [1, 2, 3]), [status_message])
   \<and> synthesizeSingle ([status_message, audio_message [1]] @ error_message # [finished_message])
     = (Some (Inl (ProtocolViolation error_message)), [finished_message])
   \<and> synthesizeSingle [status_message, finished_message, status_message]
     = (Some (Inl EmptyResult), [status_message])"
  using streaming_loop [where ?m1.0 = status_message and a = "audio_message [1, 2]"
      and b = "audio_message [3]" and ?m4.0 = finished_message and rest = "[status_message]"
      and pre = "[status_message, audio_message [1]]" and m = error_message
      and arrivals = "[status_message, finished_message, status_message]"
      and rest'' = "[status_message]"]
    streaming_loop [where pre = "[status_message, audio_message [1]]" and m = error_message
      and rest' = "[finished_message]"]
  by (simp add: status_message_def audio_message_def finished_message_def
      error_message_def createMessage_def)

text \<open>A chunk of no bytes is a chunk: the call then returns empty audio.\<close>

lemma synthesizeSingle_zero_length_chunk:
  "synthesizeSingle [audio_message [], finished_message] = (Some (Inr []), [])"
  by (simp add: synthesizeSingle_def audio_message_def finished_message_def createMessage_def)

section \<open>Truncated frames\<close>

lemma getUint32_take:
  "offset + 4 \<le> n \<Longrightarrow> getUint32 (take n data) offset = getUint32 data offset"
  by (simp add: getUint32_def)

lemma getInt32_take:
  "offset + 4 \<le> n \<Longrightarrow> getInt32 (take n data) offset = getInt32 data offset"
  by (simp add: getInt32_def getUint32_take)

lemma slice_take: "a \<le> b \<Longrightarrow> b \<le> n \<Longrightarrow> slice (take n data) a b = slice data a b"
  by (simp add: slice_def drop_take)

lemma cut_stable_readEvent: "cut_stable readEvent"
  by (auto simp add: cut_stable_def readEvent_def getInt32_take split: if_splits)

lemma cut_stable_readSequence: "cut_stable readSequence"
  by (auto simp add: cut_stable_def readSequence_def getInt32_take split: if_splits)

lemma cut_stable_readErrorCode: "cut_stable readErrorCode"
  by (auto simp add: cut_stable_def readErrorCode_def getUint32_take split: if_splits)

lemma cut_stable_readPayload: "cut_stable readPayload"
  unfolding cut_stable_def
proof (intro allI impI, elim conjE)
  fix msg data offset msg' offset' n
  assume r: "readPayload msg data offset = Inr (msg', offset')" and n: "n \<le> length data"
  show "offset \<le> offset'
          \<and> (offset' \<le> n \<longrightarrow> readPayload msg (take n data) offset = Inr (msg', offset'))
          \<and> (n < offset' \<longrightarrow>
                (\<exists>f. readPayload msg (take n data) offset = Inl (TruncatedField f))
                \<or> (offset' = offset \<and> readPayload msg (take n data) offset = Inr (msg', offset')))"
    using r n
    by (auto simp add: readPayload_def Let_def getUint32_take slice_take split: if_splits)
qed

lemma cut_stable_readSessionId: "cut_stable readSessionId"
  unfolding cut_stable_def
proof (intro allI impI, elim conjE)
  fix msg data offset msg' offset' n
  assume r: "readSessionId msg data offset = Inr (msg', offset')" and n: "n \<le> length data"
  show "offset \<le> offset'
          \<and> (offset' \<le> n \<longrightarrow> readSessionId msg (take n data) offset = Inr (msg', offset'))
          \<and> (n < offset' \<longrightarrow>
                (\<exists>f. readSessionId msg (take n data) offset = Inl (TruncatedField f))
                \<or> (offset' = offset \<and> readSessionId msg (take n data) offset = Inr (msg', offset')))"
    using r n
    by (auto simp add: readSessionId_def Let_def getUint32_take slice_take
        split: if_splits option.splits)
qed

lemma cut_stable_readConnectId: "cut_stable readConnectId"
  unfolding cut_stable_def
proof (intro allI impI, elim conjE)
  fix msg data offset msg' offset' n
  assume r: "readConnectId msg data offset = Inr (msg', offset')" and n: "n \<le> length data"
  show "offset \<le> offset'
          \<and> (offset' \<le> n \<longrightarrow> readConnectId msg (take n data) offset = Inr (msg', offset'))
          \<and> (n < offset' \<longrightarrow>
                (\<exists>f. readConnectId msg (take n data) offset = Inl (TruncatedField f))
                \<or> (offset' = offset \<and> readConnectId msg (take n data) offset = Inr (msg', offset')))"
    using r n
    by (auto simp add: readConnectId_def Let_def getUint32_take slice_take
        split: if_splits option.splits)
qed

lemma readPayload_cut:
  assumes "readPayload msg data offset = Inr (msg', offset')" "n \<le> length data" "n < offset'"
  shows "\<exists>f. readPayload msg (take n data) offset = Inl (TruncatedField f)"
  using assms
  by (auto simp add: readPayload_def Let_def getUint32_take split: if_splits)

lemma cut_stableD:
  assumes "cut_stable r" "r msg data offset = Inr (msg', offset')" "n \<le> length data"
  shows "offset \<le> offset'"
    and "offset' \<le> n \<Longrightarrow> r msg (take n data) offset = Inr (msg', offset')"
    and "n < offset' \<Longrightarrow>
           (\<exists>f. r msg (take n data) offset = Inl (TruncatedField f))
           \<or> (offset' = offset \<and> r msg (take n data) offset = Inr (msg', offset'))"
  using assms unfolding cut_stable_def by blast+

lemma runReaders_cut:
  assumes "\<forall>r \<in> set rs. cut_stable r"
    and "runReaders rs msg data offset = Inr (msg', offset')" and "n \<le> length data"
  shows "offset \<le> offset'
         \<and> (offset' \<le> n \<longrightarrow> runReaders rs msg (take n data) offset = Inr (msg', offset'))
         \<and> (n < offset' \<longrightarrow>
               (\<exists>f. runReaders rs msg (take n data) offset = Inl (TruncatedField f))
               \<or> (offset' = offset
                   \<and> runReaders rs msg (take n data) offset = Inr (msg', offset')))"
  using assms
proof (induction rs arbitrary: msg offset)
  case Nil
  then show ?case by simp
next
  case (Cons r rs)
  from Cons.prems(2) obtain msg1 offset1 where
    r: "r msg data offset = Inr (msg1, offset1)"
    and rs: "runReaders rs msg1 data offset1 = Inr (msg', offset')"
    by (auto split: sum.splits)
  have st: "cut_stable r" and sts: "\<forall>r \<in> set rs. cut_stable r" using Cons.prems(1) by simp_all
  note d = cut_stableD [OF st r Cons.prems(3)]
  note ih = Cons.IH [OF sts rs Cons.prems(3)]
  show ?case
  proof (cases "offset1 \<le> n")
    case True
    with d(2) have "r msg (take n data) offset = Inr (msg1, offset1)" by simp
    then show ?thesis using ih d(1) True by auto
  next
    case False
    then have lt: "n < offset1" by simp
    then have lt': "n < offset'" using ih by simp
    from d(3) [OF lt] show ?thesis
    proof
      assume "\<exists>f. r msg (take n data) offset = Inl (TruncatedField f)"
      then show ?thesis using ih d(1) lt' by auto
    next
      assume "offset1 = offset \<and> r msg (take n data) offset = Inr (msg1, offset1)"
      then show ?thesis using ih d(1) lt' by auto
    qed
  qed
qed

lemma getReaders_cut_stable:
  "getReaders msg = Inr rs \<Longrightarrow>
   \<exists>rs'. rs = rs' @ [readPayload] \<and> (\<forall>r \<in> set rs'. cut_stable r)"
  by (auto simp add: getReaders_def Let_def cut_stable_readEvent cut_stable_readSequence
      cut_stable_readErrorCode cut_stable_readSessionId cut_stable_readConnectId
      split: if_splits)

lemma unmarshalHeader_take: "3 \<le> n \<Longrightarrow> unmarshalHeader (take n data) = unmarshalHeader data"
  by (simp add: unmarshalHeader_def)

lemma unmarshalState_cut:
  assumes ok: "unmarshalState data = Inr (msg, length data)"
    and n: "3 \<le> n" "n < length data"
  shows "\<exists>f. unmarshalState (take n data) = Inl (TruncatedField f)"
proof -
  define h where "h = unmarshalHeader data"
  from ok n obtain rs where g: "getReaders h = Inr rs"
    and run: "runReaders rs h data (4 * headerSize h) = Inr (msg, length data)"
    by (auto simp add: unmarshalState_def Let_def h_def split: if_splits sum.splits)
  from getReaders_cut_stable [OF g] obtain rs' where
    rs: "rs = rs' @ [readPayload]" and st: "\<forall>r \<in> set rs'. cut_stable r" by blast
  from run obtain msg1 offset1 where
    r1: "runReaders rs' h data (4 * headerSize h) = Inr (msg1, offset1)"
    and r2: "readPayload msg1 data offset1 = Inr (msg, length data)"
    by (auto simp add: rs runReaders_append runReaders_single simp del: runReaders.simps
        split: sum.splits)
  have nl: "n \<le> length data" using n by simp
  from readPayload_cut [OF r2 nl n(2)] obtain f where
    p: "readPayload msg1 (take n data) offset1 = Inl (TruncatedField f)" by blast
  note c = runReaders_cut [OF st r1 nl]
  have "\<exists>f. runReaders rs h (take n data) (4 * headerSize h) = Inl (TruncatedField f)"
  proof (cases "offset1 \<le> n")
    case True
    with c have "runReaders rs' h (take n data) (4 * headerSize h) = Inr (msg1, offset1)"
      by simp
    then show ?thesis using p
      by (simp add: rs runReaders_append runReaders_single del: runReaders.simps)
  next
    case False
    with c have "(\<exists>f. runReaders rs' h (take n data) (4 * headerSize h) = Inl (TruncatedField f))
        \<or> runReaders rs' h (take n data) (4 * headerSize h) = Inr (msg1, offset1)"
      by auto
    then show ?thesis using p
      by (auto simp add: rs runReaders_append runReaders_single simp del: runReaders.simps)
  qed
  then show ?thesis using n g
    by (simp add: unmarshalState_def unmarshalHeader_take h_def [symmetric] Let_def)
qed

section \<open>Decoding what the writers wrote\<close>

lemma length_setUint32 [simp]: "length (setUint32 n) = 4"
  by (simp add: setUint32_def)

lemma length_setInt32 [simp]: "length (setInt32 v) = 4"
  by (simp add: setInt32_def)

lemma slice_after_length:
  "length l4 = 4 \<Longrightarrow>
   slice (pre @ l4 @ bs @ rest) (length pre + 4) (length pre + 4 + length bs) = bs"
  by (simp add: slice_def)

lemma read_int32_written:
  assumes "- (2 ^ 31) \<le> v" "v < 2 ^ 31"
  shows "read_int32 f (pre @ setInt32 v @ rest) (length pre) = Inr (v, length pre + 4)"
  using getInt32_setInt32 [OF assms, of pre rest] by (simp add: read_int32_def)

lemma read_string_field_written:
  assumes "length bs < 2 ^ 32"
  shows "read_string_field fs fb (pre @ setUint32 (length bs) @ bs @ rest) (length pre)
         = Inr (if bs = [] then None else Some (utf8_decode bs), length pre + 4 + length bs)"
  using getUint32_setUint32 [OF assms, of pre "bs @ rest"]
    slice_after_length [of "setUint32 (length bs)" pre bs rest]
  by (simp add: read_string_field_def Let_def)

lemma payload_field_written:
  assumes "length p < 2 ^ 32"
  shows "payload_field msg (pre @ setUint32 (length p) @ p) (length pre)
         = Inr (if p = [] then msg else msg\<lparr>payload := p\<rparr>, length pre + 4 + length p)"
  using getUint32_setUint32 [OF assms, of pre p]
    slice_after_length [of "setUint32 (length p)" pre p "[]"]
  by (simp add: payload_field_def Let_def)

lemma first_field_nothing:
  "content_kind (type msg) \<Longrightarrow> flag msg \<noteq> PositiveSeq \<Longrightarrow> flag msg \<noteq> NegativeSeq \<Longrightarrow>
   first_field msg data offset = Inr (msg, offset)"
  by (simp add: first_field_def)

lemma first_field_sequence_written:
  assumes "content_kind (type msg)" "flag msg = PositiveSeq \<or> flag msg = NegativeSeq"
    "- (2 ^ 31) \<le> s" "s < 2 ^ 31"
  shows "first_field msg (pre @ setInt32 s @ rest) (length pre)
         = Inr (msg\<lparr>sequence := Some s\<rparr>, length pre + 4)"
  using assms(1,2) read_int32_written [OF assms(3,4), of SequenceField pre rest]
  by (auto simp add: first_field_def)

lemma first_field_errorCode_written:
  assumes "type msg = MsgType_Error" "0 \<le> c" "c < 2 ^ 32"
  shows "first_field msg (pre @ setUint32 (nat (c mod 2 ^ 32)) @ rest) (length pre)
         = Inr (msg\<lparr>errorCode := Some c\<rparr>, length pre + 4)"
proof -
  have c: "nat (c mod 2 ^ 32) = nat c" using assms by simp
  have "nat c < 2 ^ 32" using assms by (simp add: nat_less_iff)
  from getUint32_setUint32 [OF this, of pre rest] assms show ?thesis
    by (simp add: first_field_def content_kind_def c)
qed

lemma event_fields_written:
  assumes "flag msg = WithEvent" "- (2 ^ 31) \<le> e" "e < 2 ^ 31" "\<not> carries_connectId e"
    "length bs < 2 ^ 32"
  shows "event_fields msg
           (pre @ setInt32 e @ (if connection_scope e then [] else setUint32 (length bs) @ bs)
            @ rest) (length pre)
         = Inr (set_sessionId (if connection_scope e \<or> bs = [] then None
                               else Some (utf8_decode bs)) (msg\<lparr>event := Some e\<rparr>),
                length pre + 4 + (if connection_scope e then 0 else 4 + length bs))"
proof (cases "connection_scope e")
  case True
  then have "decode_skips_sessionId e"
    by (auto simp add: connection_scope_def decode_skips_sessionId_def)
  then show ?thesis
    using assms(1,4) True
      read_int32_written [OF assms(2,3), of EventField pre rest]
    by (simp add: event_fields_def)
next
  case False
  then have ns: "\<not> decode_skips_sessionId e" using assms(4)
    by (auto simp add: connection_scope_def decode_skips_sessionId_def carries_connectId_def)
  have "read_string_field SessionIdSize SessionIdBody
          ((pre @ setInt32 e) @ setUint32 (length bs) @ bs @ rest) (length (pre @ setInt32 e))
        = Inr (if bs = [] then None else Some (utf8_decode bs),
               length (pre @ setInt32 e) + 4 + length bs)"
    by (rule read_string_field_written [OF assms(5)])
  then show ?thesis
    using assms(1,4) False ns
      read_int32_written [OF assms(2,3), of EventField pre "setUint32 (length bs) @ bs @ rest"]
    by (simp add: event_fields_def add.assoc)
qed

section \<open>The encoder read in order, and the round trip\<close>

lemma marshalMessage_eq_encode: "marshalMessage msg = encode_in_order msg"
  by (auto simp add: marshalMessage_def encode_in_order_def getWriters_def Let_def
      content_kind_def event_part_def kind_part_def payload_part_def
      writeEvent_def writeSessionId_def writeSequence_def writeErrorCode_def writePayload_def
      connection_scope_def split: option.splits)

lemma length_marshalHeader [simp]: "length (marshalHeader msg) = 4 * headerSize msg"
  by (simp add: marshalHeader_def)

lemma unmarshalHeader_marshalHeader:
  assumes "version msg < 16" "1 \<le> headerSize msg" "headerSize msg < 16" "type msg < 16"
    "flag msg < 16" "serialization msg < 16" "compression msg < 16"
  shows "unmarshalHeader (marshalHeader msg @ rest)
         = msg\<lparr>event := None, sessionId := None, connectId := None, sequence := None,
               errorCode := None, payload := []\<rparr>"
proof -
  have l: "4 \<le> length (replicate (4 * headerSize msg) (0::byte))" using assms(2) by simp
  have n: "(marshalHeader msg @ rest) ! 0 = of_nat (push_bit 4 (version msg) OR headerSize msg)"
    "(marshalHeader msg @ rest) ! 1 = of_nat (push_bit 4 (type msg) OR flag msg)"
    "(marshalHeader msg @ rest) ! 2 = of_nat (push_bit 4 (serialization msg) OR compression msg)"
    using l by (simp_all add: marshalHeader_def nth_append)
  show ?thesis
    unfolding unmarshalHeader_def n Let_def
    by (simp add: nibble_hi nibble_lo assms)
qed

lemma three_stages:
  assumes "3 \<le> length data"
    and "first_field (unmarshalHeader data) data (4 * headerSize (unmarshalHeader data))
         = Inr (msg1, offset1)"
    and "event_fields msg1 data offset1 = Inr (msg2, offset2)"
    and "payload_field msg2 data offset2 = Inr (msg3, offset3)"
  shows "unmarshalState data = Inr (msg3, offset3)"
  using assms by (simp add: unmarshalState_spec Let_def)

lemma unmarshalState_encoded:
  assumes rep: "representable msg"
    and ev: "(event msg \<noteq> None) = (flag msg = WithEvent)"
    and sq: "(sequence msg \<noteq> None)
             = (content_kind (type msg) \<and> (flag msg = PositiveSeq \<or> flag msg = NegativeSeq))"
    and ec: "(errorCode msg \<noteq> None) = (type msg = MsgType_Error)"
    and sid: "sessionId msg \<noteq> None \<Longrightarrow>
              flag msg = WithEvent \<and> (\<exists>e. event msg = Some e \<and> \<not> connection_scope e)"
    and cid: "connectId msg = None"
    and nc: "\<And>e. event msg = Some e \<Longrightarrow> \<not> carries_connectId e"
    and ne: "\<not> (type msg = MsgType_Error \<and> flag msg = WithEvent)"
  shows "unmarshalState (marshalHeader msg @ event_part msg @ kind_part msg @ payload_part msg)
         = Inr (msg\<lparr>sessionId := wire_sessionId (sessionId msg)\<rparr>,
                length (marshalHeader msg @ event_part msg @ kind_part msg @ payload_part msg))"
proof -
  define H where "H = marshalHeader msg"
  define p where "p = payload msg"
  define h0 where "h0 = msg\<lparr>event := None, sessionId := None, connectId := None,
    sequence := None, errorCode := None, payload := []\<rparr>"
  let ?data = "H @ event_part msg @ kind_part msg @ payload_part msg"
  have lH: "length H = 4 * headerSize msg" by (simp add: H_def)
  have ty: "type msg < 16" using rep by (auto simp add: representable_def content_kind_def)
  have hdr: "unmarshalHeader ?data = h0"
    unfolding H_def h0_def using rep ty
    by (intro unmarshalHeader_marshalHeader) (simp_all add: representable_def)
  have len3: "3 \<le> length ?data" using rep by (simp add: lH representable_def)
  have off0: "4 * headerSize (unmarshalHeader ?data) = length H"
    by (simp add: hdr h0_def lH)
  have lp: "length p < 2 ^ 32" using rep by (simp add: representable_def p_def)
  have h0_simps: "type h0 = type msg" "flag h0 = flag msg" by (simp_all add: h0_def)
  show ?thesis
  proof (cases "flag msg = WithEvent")
    case True
    with ev obtain e where e: "event msg = Some e" by auto
    have ck: "content_kind (type msg)" using rep ne True by (auto simp add: representable_def)
    have er: "- (2 ^ 31) \<le> e" "e < 2 ^ 31" using rep e by (simp_all add: representable_def)
    define bs where "bs = utf8_encode (case sessionId msg of None \<Rightarrow> [] | Some s \<Rightarrow> s)"
    have lbs: "length bs < 2 ^ 32" using rep
      by (simp add: bs_def representable_def split: option.splits)
    have kp: "kind_part msg = []" using ck True by (simp add: kind_part_def)
    have ep: "event_part msg
              = setInt32 e @ (if connection_scope e then [] else setUint32 (length bs) @ bs)"
      using True e by (simp add: event_part_def bs_def)
    have s1: "first_field (unmarshalHeader ?data) ?data (4 * headerSize (unmarshalHeader ?data))
              = Inr (h0, length H)"
      unfolding hdr off0 [unfolded hdr] using ck True
      by (intro first_field_nothing) (simp_all add: h0_simps)
    define m2 where "m2 = set_sessionId (if connection_scope e \<or> bs = [] then None
                               else Some (utf8_decode bs)) (h0\<lparr>event := Some e\<rparr>)"
    have s2: "event_fields h0 ?data (length H) = Inr (m2, length (H @ event_part msg))"
      using event_fields_written [OF _ er nc [OF e] lbs, of h0 H "payload_part msg"] True
      by (simp add: kp ep h0_simps m2_def)
    have s3: "payload_field m2 ?data (length (H @ event_part msg))
              = Inr (if p = [] then m2 else m2\<lparr>payload := p\<rparr>, length ?data)"
      using payload_field_written [OF lp, of m2 "H @ event_part msg"]
      by (simp add: kp payload_part_def p_def)
    have sidNone: "sessionId msg = None" if "connection_scope e"
    proof (rule ccontr)
      assume "sessionId msg \<noteq> None"
      from sid [OF this] e that show False by simp
    qed
    have sidv: "(if connection_scope e \<or> bs = [] then None else Some (utf8_decode bs))
                = wire_sessionId (sessionId msg)"
    proof (cases "sessionId msg")
      case None
      then show ?thesis by (simp add: bs_def wire_sessionId_def)
    next
      case (Some s)
      then have "\<not> connection_scope e" using sidNone by auto
      then show ?thesis using Some by (simp add: bs_def wire_sessionId_def)
    qed
    have fin: "(if p = [] then m2 else m2\<lparr>payload := p\<rparr>)
               = msg\<lparr>sessionId := wire_sessionId (sessionId msg)\<rparr>"
    proof -
      have en: "errorCode msg = None" using ec ck by (auto simp add: content_kind_def)
      have sn: "sequence msg = None" using sq True by auto
      show ?thesis unfolding m2_def sidv using e cid en sn
        by (cases msg; cases "wire_sessionId (sessionId msg)")
           (simp_all add: h0_def p_def)
    qed
    from three_stages [OF len3 s1 s2 s3] show ?thesis by (simp only: fin H_def)
  next
    case False
    with ev have e: "event msg = None" by simp
    have sn: "sessionId msg = None"
    proof (rule ccontr)
      assume "sessionId msg \<noteq> None"
      from sid [OF this] False show False by simp
    qed
    have ep: "event_part msg = []" using False by (simp add: event_part_def)
    define m1 where "m1 = h0\<lparr>sequence := sequence msg, errorCode := errorCode msg\<rparr>"
    have s1: "first_field (unmarshalHeader ?data) ?data (4 * headerSize (unmarshalHeader ?data))
              = Inr (m1, length (H @ kind_part msg))"
      unfolding hdr off0 [unfolded hdr]
    proof (cases "content_kind (type msg)")
      case ck: True
      then have en: "errorCode msg = None" using ec by (auto simp add: content_kind_def)
      show "first_field h0 ?data (length H) = Inr (m1, length (H @ kind_part msg))"
      proof (cases "flag msg = PositiveSeq \<or> flag msg = NegativeSeq")
        case True
        with sq ck obtain s where s: "sequence msg = Some s" by auto
        have sr: "- (2 ^ 31) \<le> s" "s < 2 ^ 31" using rep s by (simp_all add: representable_def)
        have kp: "kind_part msg = setInt32 s" using ck True s by (simp add: kind_part_def)
        from first_field_sequence_written [OF _ _ sr, of h0 H "payload_part msg"] ck True
        show ?thesis by (simp add: ep kp h0_simps m1_def s en h0_def)
      next
        case False
        with sq have s: "sequence msg = None" by auto
        have kp: "kind_part msg = []" using ck False by (simp add: kind_part_def)
        from first_field_nothing [of h0 ?data "length H"] ck False
        show ?thesis by (simp add: kp h0_simps m1_def s en h0_def)
      qed
    next
      case nck: False
      then have te: "type msg = MsgType_Error" using rep by (simp add: representable_def)
      with ec obtain c where c: "errorCode msg = Some c" by auto
      have cr: "0 \<le> c" "c < 2 ^ 32" using rep c by (simp_all add: representable_def)
      from sq nck have s: "sequence msg = None" by auto
      have kp: "kind_part msg = setUint32 (nat (c mod 2 ^ 32))"
        using nck c by (simp add: kind_part_def)
      from first_field_errorCode_written [OF _ cr, of h0 H "payload_part msg"] te
      show "first_field h0 ?data (length H) = Inr (m1, length (H @ kind_part msg))"
        by (simp add: ep kp h0_simps m1_def s c h0_def)
    qed
    have s2: "event_fields m1 ?data (length (H @ kind_part msg))
              = Inr (m1, length (H @ kind_part msg))"
      using False by (simp add: event_fields_def m1_def h0_def)
    have s3: "payload_field m1 ?data (length (H @ kind_part msg))
              = Inr (if p = [] then m1 else m1\<lparr>payload := p\<rparr>, length ?data)"
      using payload_field_written [OF lp, of m1 "H @ kind_part msg"]
      by (simp add: ep payload_part_def p_def)
    have fin: "(if p = [] then m1 else m1\<lparr>payload := p\<rparr>)
               = msg\<lparr>sessionId := wire_sessionId (sessionId msg)\<rparr>"
      using e cid sn
      by (cases msg) (auto simp add: m1_def h0_def p_def wire_sessionId_def)
    from three_stages [OF len3 s1 s2 s3] show ?thesis by (simp only: fin H_def)
  qed
qed

lemma roundtrip_eq: "roundtrip msg = (case encode_in_order msg of Inl e \<Rightarrow> Inl e | Inr data \<Rightarrow> decode_in_order data)"
  by (simp add: roundtrip_def marshalMessage_eq_encode unmarshalMessage_eq_decode split: sum.splits)

lemmas encode_eval = encode_in_order_def content_kind_def marshalHeader_def replicate4
  event_part_def kind_part_def payload_part_def connection_scope_def setInt32_def
  setUint32_def utf8_eval createMessage_def

lemmas decode_eval = decode_in_order_def unmarshalHeader_def first_field_def content_kind_def
  event_fields_def read_int32_def getInt32_def getUint32_def decode_skips_sessionId_def
  carries_connectId_def read_string_field_def payload_field_def slice_def utf8_eval
  Let_def

lemma roundtrip_connection_started:
  "roundtrip connection_started_message = Inl (TruncatedField PayloadSize)"
  apply (simp add: roundtrip_eq connection_started_message_def encode_eval)
  apply (simp add: decode_eval)
  done

lemma roundtrip_connection_finished:
  "roundtrip connection_finished_message
   = Inr (connection_finished_message\<lparr>sessionId := None, connectId := Some [0x61, 0x62, 0x63]\<rparr>)"
  apply (simp add: roundtrip_eq connection_finished_message_def encode_eval)
  apply (simp add: decode_eval)
  done

lemma roundtrip_empty_session:
  "roundtrip empty_session_message = Inr (empty_session_message\<lparr>sessionId := None\<rparr>)"
  apply (simp add: roundtrip_eq empty_session_message_def StartSession_message_def encode_eval)
  apply (simp add: decode_eval)
  done

lemma roundtrip_error_event:
  "roundtrip error_event_message = Inl (TruncatedField SessionIdBody)"
  apply (simp add: roundtrip_eq error_event_message_def encode_eval)
  apply (simp add: decode_eval)
  done

lemma roundtrip_bom_session:
  "roundtrip bom_session_message = Inr (bom_session_message\<lparr>sessionId := Some [0x61, 0x62]\<rparr>)"
  apply (simp add: roundtrip_eq bom_session_message_def StartSession_message_def encode_eval)
  apply (simp add: decode_eval)
  done

lemma roundtrip_surrogate_session:
  "roundtrip surrogate_session_message
   = Inr (surrogate_session_message\<lparr>sessionId := Some [0xFFFD]\<rparr>)"
  apply (simp add: roundtrip_eq surrogate_session_message_def StartSession_message_def
      encode_eval)
  apply (simp add: decode_eval)
  done

lemma presence_examples:
  "presence_rules connection_started_message" "representable connection_started_message"
  "presence_rules connection_finished_message" "representable connection_finished_message"
  "presence_rules empty_session_message" "representable empty_session_message"
  "presence_rules error_event_message" "representable error_event_message"
  "presence_rules bom_session_message" "representable bom_session_message"
  "presence_rules surrogate_session_message" "representable surrogate_session_message"
  by (simp_all add: presence_rules_def representable_def connection_started_message_def
      connection_finished_message_def empty_session_message_def error_event_message_def
      bom_session_message_def surrogate_session_message_def
      StartSession_message_def createMessage_def connection_scope_def content_kind_def
      utf8_eval)

lemma presence_rules_sessionId:
  assumes "presence_rules msg" "sessionId msg \<noteq> None"
  shows "flag msg = WithEvent \<and> (\<exists>e. event msg = Some e \<and> \<not> connection_scope e)"
  using assms by (auto simp add: presence_rules_def split: option.splits)

lemma parts_ignore_connectId:
  "marshalHeader (msg\<lparr>connectId := c\<rparr>) = marshalHeader msg"
  "event_part (msg\<lparr>connectId := c\<rparr>) = event_part msg"
  "kind_part (msg\<lparr>connectId := c\<rparr>) = kind_part msg"
  "payload_part (msg\<lparr>connectId := c\<rparr>) = payload_part msg"
  by (simp_all add: marshalHeader_def event_part_def kind_part_def payload_part_def
      cong: if_cong option.case_cong)

lemma unmarshalState_marshalled:
  assumes pr: "presence_rules msg" and rep: "representable msg"
    and nc: "case event msg of None \<Rightarrow> True | Some e \<Rightarrow> \<not> carries_connectId e"
    and ne: "\<not> (type msg = MsgType_Error \<and> flag msg = WithEvent)"
  shows "unmarshalState (marshalHeader msg @ event_part msg @ kind_part msg @ payload_part msg)
         = Inr (msg\<lparr>sessionId := wire_sessionId (sessionId msg), connectId := None\<rparr>,
                length (marshalHeader msg @ event_part msg @ kind_part msg @ payload_part msg))"
proof -
  define m where "m = msg\<lparr>connectId := None\<rparr>"
  have "unmarshalState (marshalHeader m @ event_part m @ kind_part m @ payload_part m)
        = Inr (m\<lparr>sessionId := wire_sessionId (sessionId m)\<rparr>,
               length (marshalHeader m @ event_part m @ kind_part m @ payload_part m))"
  proof (rule unmarshalState_encoded)
    show "representable m" using rep by (simp add: representable_def m_def)
    show "(event m \<noteq> None) = (flag m = WithEvent)"
      using pr by (simp add: presence_rules_def m_def)
    show "(sequence m \<noteq> None)
          = (content_kind (type m) \<and> (flag m = PositiveSeq \<or> flag m = NegativeSeq))"
      using pr by (simp add: presence_rules_def m_def)
    show "(errorCode m \<noteq> None) = (type m = MsgType_Error)"
      using pr by (simp add: presence_rules_def m_def)
    show "flag m = WithEvent \<and> (\<exists>e. event m = Some e \<and> \<not> connection_scope e)"
      if "sessionId m \<noteq> None"
      using presence_rules_sessionId [OF pr] that by (simp add: m_def)
    show "connectId m = None" by (simp add: m_def)
    show "\<not> carries_connectId e" if "event m = Some e" for e
      using nc that by (simp add: m_def)
    show "\<not> (type m = MsgType_Error \<and> flag m = WithEvent)" using ne by (simp add: m_def)
  qed
  moreover have "sessionId m = sessionId msg" by (simp add: m_def)
  moreover have "m\<lparr>sessionId := s\<rparr> = msg\<lparr>sessionId := s, connectId := None\<rparr>" for s
    by (simp add: m_def)
  moreover have "marshalHeader m = marshalHeader msg" "event_part m = event_part msg"
    "kind_part m = kind_part msg" "payload_part m = payload_part msg"
    by (simp_all only: m_def parts_ignore_connectId)
  ultimately show ?thesis by (simp only:)
qed

lemma roundtrip_marshalled:
  assumes "presence_rules msg" "representable msg"
    "case event msg of None \<Rightarrow> True | Some e \<Rightarrow> \<not> carries_connectId e"
    "\<not> (type msg = MsgType_Error \<and> flag msg = WithEvent)"
  shows "roundtrip msg
         = Inr (msg\<lparr>sessionId := wire_sessionId (sessionId msg), connectId := None\<rparr>)"
proof -
  have k: "content_kind (type msg) \<or> type msg = MsgType_Error"
    using assms(2) by (simp add: representable_def)
  from unmarshalState_marshalled [OF assms] k show ?thesis
    by (simp add: roundtrip_def marshalMessage_eq_encode encode_in_order_def
        unmarshalMessage_def)
qed

text \<open>
  C1 (amended). For every message that satisfies the presence rules and whose fields fit
  their widths on the wire, whose event is none of ConnectionStarted, ConnectionFailed
  and ConnectionFinished, whose session id, when present, is not the empty string and is
  a string that decoding its UTF-8 bytes gives back (as every string of ASCII characters
  is), and that is not an Error message with the flag WithEvent, unmarshalMessage of
  marshalMessage returns the message with every applicable field as it was and the
  connect id, which is never written, unset.
\<close>

theorem roundtrip_message:
  assumes "presence_rules msg" "representable msg"
    "case event msg of None \<Rightarrow> True | Some e \<Rightarrow> \<not> carries_connectId e"
    "case sessionId msg of None \<Rightarrow> True
     | Some s \<Rightarrow> s \<noteq> [] \<and> utf8_decode (utf8_encode s) = s"
    "\<not> (type msg = MsgType_Error \<and> flag msg = WithEvent)"
  shows "roundtrip msg = Inr (msg\<lparr>connectId := None\<rparr>)"
proof -
  have "wire_sessionId (sessionId msg) = sessionId msg"
    using assms(4) by (cases "sessionId msg") (simp_all add: wire_sessionId_def)
  then show ?thesis
    using roundtrip_marshalled [OF assms(1,2,3,5)] by simp
qed

lemma scenarioA_presence:
  "presence_rules scenarioA_message" "representable scenarioA_message"
  by (simp_all add: presence_rules_def representable_def scenarioA_message_def
      StartSession_message_def createMessage_def connection_scope_def content_kind_def
      utf8_eval)

theorem roundtrip_message_witness:
  "presence_rules scenarioA_message \<and> representable scenarioA_message
   \<and> event scenarioA_message = Some StartSession
   \<and> sessionId scenarioA_message = Some [0x61, 0x62, 0x63]
   \<and> type scenarioA_message = MsgType_FullClientRequest
   \<and> utf8_decode (utf8_encode [0x61, 0x62, 0x63]) = [0x61, 0x62, 0x63]
   \<and> connectId scenarioA_message = None
   \<and> roundtrip scenarioA_message = Inr scenarioA_message"
proof -
  have "roundtrip scenarioA_message = Inr (scenarioA_message\<lparr>connectId := None\<rparr>)"
    by (rule roundtrip_message [OF scenarioA_presence])
       (simp_all add: scenarioA_message_def StartSession_message_def createMessage_def
          carries_connectId_def utf8_eval)
  then show ?thesis
    using scenarioA_presence
    by (simp add: scenarioA_message_def StartSession_message_def createMessage_def utf8_eval)
qed

text \<open>
  C1 as stated fails on six messages that satisfy the presence rules. A
  ConnectionStarted message is written without a connect id, which the decoder then
  takes from the payload, and decoding fails. A ConnectionFinished message is written
  with its session id, which the decoder reads as the connect id. An empty session id
  is written as a length of zero and decodes as unset. An Error message with an event is
  written event first and read error code first, and decoding fails. A session id that
  begins with U+FEFF comes back without it, and a session id that is a lone surrogate
  comes back as U+FFFD.
\<close>

theorem roundtrip_counterexample:
  "presence_rules connection_started_message \<and> representable connection_started_message
   \<and> roundtrip connection_started_message = Inl (TruncatedField PayloadSize)
   \<and> presence_rules connection_finished_message \<and> representable connection_finished_message
   \<and> roundtrip connection_finished_message
       = Inr (connection_finished_message\<lparr>sessionId := None, connectId := Some [0x61, 0x62, 0x63]\<rparr>)
   \<and> roundtrip connection_finished_message \<noteq> Inr connection_finished_message
   \<and> presence_rules empty_session_message \<and> representable empty_session_message
   \<and> roundtrip empty_session_message = Inr (empty_session_message\<lparr>sessionId := None\<rparr>)
   \<and> roundtrip empty_session_message \<noteq> Inr empty_session_message
   \<and> presence_rules error_event_message \<and> representable error_event_message
   \<and> roundtrip error_event_message = Inl (TruncatedField SessionIdBody)
   \<and> presence_rules bom_session_message \<and> representable bom_session_message
   \<and> roundtrip bom_session_message = Inr (bom_session_message\<lparr>sessionId := Some [0x61, 0x62]\<rparr>)
   \<and> roundtrip bom_session_message \<noteq> Inr bom_session_message
   \<and> presence_rules surrogate_session_message \<and> representable surrogate_session_message
   \<and> roundtrip surrogate_session_message
       = Inr (surrogate_session_message\<lparr>sessionId := Some [0xFFFD]\<rparr>)
   \<and> roundtrip surrogate_session_message \<noteq> Inr surrogate_session_message"
  using presence_examples roundtrip_connection_started roundtrip_connection_finished
    roundtrip_empty_session roundtrip_error_event roundtrip_bom_session
    roundtrip_surrogate_session
  by (simp add: connection_finished_message_def empty_session_message_def
      bom_session_message_def surrogate_session_message_def
      StartSession_message_def createMessage_def)

section \<open>Zero-length fields\<close>

text \<open>
  C10. When the four-byte length of the session id, of the connect id or of the payload
  is zero, its reader consumes the four bytes and leaves the message as it is; and a
  message with the empty string as its session id, marshalled and unmarshalled, comes
  back with its session id unset.
\<close>

theorem zero_length_fields:
  "(event msg = Some e \<and> \<not> decode_skips_sessionId e \<and> offset + 4 \<le> length data
      \<and> getUint32 data offset = 0
    \<longrightarrow> readSessionId msg data offset = Inr (msg, offset + 4))
   \<and> (event msg = Some e' \<and> carries_connectId e' \<and> offset + 4 \<le> length data
      \<and> getUint32 data offset = 0
    \<longrightarrow> readConnectId msg data offset = Inr (msg, offset + 4))
   \<and> (offset + 4 \<le> length data \<and> getUint32 data offset = 0
    \<longrightarrow> readPayload msg data offset = Inr (msg, offset + 4))
   \<and> (presence_rules m \<and> representable m
      \<and> (case event m of None \<Rightarrow> True | Some e \<Rightarrow> \<not> carries_connectId e)
      \<and> \<not> (type m = MsgType_Error \<and> flag m = WithEvent) \<and> sessionId m = Some []
    \<longrightarrow> roundtrip m = Inr (m\<lparr>sessionId := None, connectId := None\<rparr>))"
proof (intro conjI impI)
  assume "event msg = Some e \<and> \<not> decode_skips_sessionId e \<and> offset + 4 \<le> length data
      \<and> getUint32 data offset = 0"
  then show "readSessionId msg data offset = Inr (msg, offset + 4)"
    by (simp add: readSessionId_def decode_skips_sessionId_def)
next
  assume "event msg = Some e' \<and> carries_connectId e' \<and> offset + 4 \<le> length data
      \<and> getUint32 data offset = 0"
  then show "readConnectId msg data offset = Inr (msg, offset + 4)"
    by (simp add: readConnectId_def carries_connectId_def)
next
  assume "offset + 4 \<le> length data \<and> getUint32 data offset = 0"
  then show "readPayload msg data offset = Inr (msg, offset + 4)"
    by (simp add: readPayload_def)
next
  assume a: "presence_rules m \<and> representable m
      \<and> (case event m of None \<Rightarrow> True | Some e \<Rightarrow> \<not> carries_connectId e)
      \<and> \<not> (type m = MsgType_Error \<and> flag m = WithEvent) \<and> sessionId m = Some []"
  then have "roundtrip m
        = Inr (m\<lparr>sessionId := wire_sessionId (sessionId m), connectId := None\<rparr>)"
    by (intro roundtrip_marshalled) simp_all
  then show "roundtrip m = Inr (m\<lparr>sessionId := None, connectId := None\<rparr>)"
    using a by (simp add: wire_sessionId_def)
qed

theorem zero_length_fields_witness:
  "marshalMessage empty_session_message = Inr empty_session_frame
   \<and> readSessionId ((createMessage MsgType_FullClientRequest WithEvent)\<lparr>event := Some StartSession\<rparr>)
        empty_session_frame 8
      = Inr ((createMessage MsgType_FullClientRequest WithEvent)\<lparr>event := Some StartSession\<rparr>, 12)
   \<and> readConnectId ((createMessage MsgType_FullServerResponse WithEvent)\<lparr>event := Some ConnectionStarted\<rparr>)
        empty_session_frame 8
      = Inr ((createMessage MsgType_FullServerResponse WithEvent)\<lparr>event := Some ConnectionStarted\<rparr>, 12)
   \<and> readPayload status_message status_frame 4 = Inr (status_message, 8)
   \<and> roundtrip empty_session_message = Inr (empty_session_message\<lparr>sessionId := None\<rparr>)"
proof -
  have z: "getUint32 empty_session_frame 8 = 0" "getUint32 status_frame 4 = 0"
    "8 + 4 \<le> length empty_session_frame" "4 + 4 \<le> length status_frame"
    by (simp_all add: getUint32_def empty_session_frame_def status_frame_def)
  have m: "marshalMessage empty_session_message = Inr empty_session_frame"
    by (simp add: marshalMessage_eq_encode empty_session_message_def StartSession_message_def
        encode_eval empty_session_frame_def)
  have p: "presence_rules empty_session_message \<and> representable empty_session_message
      \<and> (case event empty_session_message of None \<Rightarrow> True | Some e \<Rightarrow> \<not> carries_connectId e)
      \<and> \<not> (type empty_session_message = MsgType_Error \<and> flag empty_session_message = WithEvent)
      \<and> sessionId empty_session_message = Some []"
    using presence_examples
    by (simp add: empty_session_message_def StartSession_message_def createMessage_def
        carries_connectId_def)
  show ?thesis
    using zero_length_fields [where msg = "(createMessage MsgType_FullClientRequest WithEvent)\<lparr>event := Some StartSession\<rparr>"
        and e = StartSession and e' = StartSession and offset = 8 and data = empty_session_frame
        and m = empty_session_message]
      zero_length_fields [where msg = "(createMessage MsgType_FullServerResponse WithEvent)\<lparr>event := Some ConnectionStarted\<rparr>"
        and e = ConnectionStarted and e' = ConnectionStarted and offset = 8
        and data = empty_session_frame]
      zero_length_fields [where msg = status_message and offset = 4 and data = status_frame]
      z m p
    by (simp add: decode_skips_sessionId_def carries_connectId_def
        empty_session_message_def StartSession_message_def createMessage_def)
qed

section \<open>Truncation safety\<close>

lemma unmarshalState_scenarioA: "unmarshalState scenarioA_frame = Inr (scenarioA_message, 21)"
proof -
  have "3 \<le> length scenarioA_frame" by (simp add: scenarioA_frame_def)
  from unmarshalState_spec [OF this] show ?thesis
    apply (simp add: unmarshalHeader_scenarioA)
    apply (simp add: createMessage_def first_field_def content_kind_def event_fields_def
      read_int32_def getInt32_def getUint32_def scenarioA_frame_def decode_skips_sessionId_def
      carries_connectId_def read_string_field_def payload_field_def slice_def utf8_eval
      scenarioA_message_def StartSession_message_def)
    done
qed

lemma exact_frame_scenarioA: "exact_frame scenarioA_frame"
proof -
  have "length scenarioA_frame = 21" by (simp add: scenarioA_frame_def)
  then show ?thesis by (simp add: exact_frame_def unmarshalState_scenarioA)
qed

lemma marshalled_frame_exact:
  assumes "presence_rules msg" "representable msg"
    "case event msg of None \<Rightarrow> True | Some e \<Rightarrow> \<not> carries_connectId e"
    "\<not> (type msg = MsgType_Error \<and> flag msg = WithEvent)"
    "marshalMessage msg = Inr data"
  shows "exact_frame data"
proof -
  have d: "data = marshalHeader msg @ event_part msg @ kind_part msg @ payload_part msg"
    using assms(2,5)
    by (simp add: marshalMessage_eq_encode encode_in_order_def representable_def)
  from unmarshalState_marshalled [OF assms(1,2,3,4)] show ?thesis
    by (simp add: exact_frame_def d)
qed

text \<open>
  C5. Cut a frame that unmarshalMessage accepts to the very end of its payload anywhere
  before that end: unmarshalMessage of the cut buffer fails, with FrameTooShort when
  fewer than three bytes are left and with TruncatedField otherwise. It returns no
  message and fails with no other error.
\<close>

theorem truncated_frame_fails:
  assumes "exact_frame data" "n < length data"
  shows "(n < 3 \<longrightarrow> unmarshalMessage (take n data) = Inl (FrameTooShort n))
         \<and> (3 \<le> n \<longrightarrow> (\<exists>f. unmarshalMessage (take n data) = Inl (TruncatedField f)))"
proof (intro conjI impI)
  assume "n < 3"
  then show "unmarshalMessage (take n data) = Inl (FrameTooShort n)"
    using assms(2) by (simp add: unmarshalMessage_def unmarshalState_def min_def)
next
  assume n: "3 \<le> n"
  from assms(1) obtain msg where "unmarshalState data = Inr (msg, length data)"
    by (auto simp add: exact_frame_def split: sum.splits)
  from unmarshalState_cut [OF this n assms(2)]
  show "\<exists>f. unmarshalMessage (take n data) = Inl (TruncatedField f)"
    by (auto simp add: unmarshalMessage_def)
qed

theorem truncated_frame_fails_witness:
  "exact_frame scenarioA_frame \<and> length scenarioA_frame = 21
   \<and> unmarshalMessage (take 2 scenarioA_frame) = Inl (FrameTooShort 2)
   \<and> unmarshalMessage (take 10 scenarioA_frame) = Inl (TruncatedField SessionIdSize)
   \<and> unmarshalMessage (take 20 scenarioA_frame) = Inl (TruncatedField PayloadBody)"
proof -
  have l: "length scenarioA_frame = 21" by (simp add: scenarioA_frame_def)
  have a: "unmarshalMessage (take 10 scenarioA_frame) = Inl (TruncatedField SessionIdSize)"
    apply (simp add: unmarshalMessage_eq_decode scenarioA_frame_def)
    apply (simp add: decode_eval)
    done
  have b: "unmarshalMessage (take 20 scenarioA_frame) = Inl (TruncatedField PayloadBody)"
    apply (simp add: unmarshalMessage_eq_decode scenarioA_frame_def)
    apply (simp add: decode_eval)
    done
  show ?thesis
    using truncated_frame_fails [OF exact_frame_scenarioA, of 2]
      truncated_frame_fails [OF exact_frame_scenarioA, of 10]
      truncated_frame_fails [OF exact_frame_scenarioA, of 20]
      exact_frame_scenarioA l a b
    by simp
qed

section \<open>Field presence\<close>

lemma getWriters_set:
  "getWriters msg = Inr ws \<Longrightarrow>
   set ws \<subseteq> {writeEvent, writeSessionId, writeSequence, writeErrorCode, writePayload}"
  unfolding getWriters_def Let_def
  by (simp split: if_splits) auto

lemma written_same:
  assumes "type m1 = type m2" "flag m1 = flag m2" "event m1 = event m2"
    "(sequence m1 = None) = (sequence m2 = None)"
    "(errorCode m1 = None) = (errorCode m2 = None)"
  shows "getWriters m1 = getWriters m2 \<and> written m1 = written m2"
proof -
  have g: "getWriters m1 = getWriters m2" using assms(1,2) by (simp add: getWriters_def)
  have w: "(writeEvent m1 = None) = (writeEvent m2 = None)"
    "(writeSessionId m1 = None) = (writeSessionId m2 = None)"
    "(writeSequence m1 = None) = (writeSequence m2 = None)"
    "(writeErrorCode m1 = None) = (writeErrorCode m2 = None)"
    "(writePayload m1 = None) = (writePayload m2 = None)"
    using assms(3,4,5)
    by (auto simp add: writeEvent_def writeSessionId_def writeSequence_def writeErrorCode_def
        writePayload_def Let_def split: option.splits)
  have "written m1 = written m2"
  proof (cases "getWriters m2")
    case (Inl e)
    then show ?thesis by (simp add: written_def g)
  next
    case (Inr ws)
    from getWriters_set [OF Inr] w
    have "\<forall>x \<in> set ws. (x m1 \<noteq> None) = (x m2 \<noteq> None)" by auto
    then show ?thesis by (simp add: written_def g Inr)
  qed
  with g show ?thesis by simp
qed

lemma content_kind_Error: "type msg = MsgType_Error \<Longrightarrow> \<not> content_kind (type msg)"
  by (simp add: content_kind_def)

lemma first_field_result:
  assumes "first_field msg data offset = Inr (msg', offset')"
    "sequence msg = None" "errorCode msg = None"
  shows "offset' = offset
           + (if (content_kind (type msg) \<and> (flag msg = PositiveSeq \<or> flag msg = NegativeSeq))
                 \<or> type msg = MsgType_Error then 4 else 0)
         \<and> (sequence msg' \<noteq> None)
             = (content_kind (type msg) \<and> (flag msg = PositiveSeq \<or> flag msg = NegativeSeq))
         \<and> (errorCode msg' \<noteq> None) = (type msg = MsgType_Error)
         \<and> msg'\<lparr>sequence := None, errorCode := None\<rparr> = msg"
proof (cases "content_kind (type msg)")
  case True
  then have ne: "type msg \<noteq> MsgType_Error" using content_kind_Error by blast
  show ?thesis
  proof (cases "flag msg = PositiveSeq \<or> flag msg = NegativeSeq")
    case sf: True
    with True assms(1) have "msg' = msg\<lparr>sequence := Some (getInt32 data offset)\<rparr>"
      "offset' = offset + 4"
      by (simp_all add: first_field_def read_int32_def split: if_splits)
    then show ?thesis using True sf ne assms(2,3) by (cases msg) simp
  next
    case nsf: False
    with True assms(1) have "msg' = msg" "offset' = offset"
      by (simp_all add: first_field_def)
    then show ?thesis using True nsf ne assms(2,3) by (cases msg) simp
  qed
next
  case False
  with assms(1) have te: "type msg = MsgType_Error"
    by (simp add: first_field_def split: if_splits)
  with False assms(1) have "msg' = msg\<lparr>errorCode := Some (int (getUint32 data offset))\<rparr>"
    "offset' = offset + 4"
    by (simp_all add: first_field_def split: if_splits)
  then show ?thesis using False te assms(2,3) by (cases msg) simp
qed

lemma set_ids_simps [simp]:
  "event (set_connectId c msg) = event msg"
  "flag (set_sessionId s msg) = flag msg" "flag (set_connectId c msg) = flag msg"
  "type (set_sessionId s msg) = type msg" "type (set_connectId c msg) = type msg"
  "sessionId (set_connectId c msg) = sessionId msg"
  "connectId (set_sessionId s msg) = connectId msg"
  by (cases s; cases c; simp)+

lemma event_fields_result:
  assumes "event_fields msg data offset = Inr (msg', offset')"
    "event msg = None" "sessionId msg = None" "connectId msg = None"
  shows "(event msg' \<noteq> None) = (flag msg = WithEvent)
         \<and> msg'\<lparr>event := None, sessionId := None, connectId := None\<rparr> = msg"
proof (cases "flag msg = WithEvent")
  case False
  then have "msg' = msg" "offset' = offset" using assms(1) by (simp_all add: event_fields_def)
  then show ?thesis using False assms(2,3,4) by (cases msg) simp
next
  case True
  from assms(1) True obtain ev sid cid where
    m: "msg' = set_connectId cid (set_sessionId sid (msg\<lparr>event := Some ev\<rparr>))"
    by (auto simp add: event_fields_def split: sum.splits prod.splits)
  have f: "event msg' = Some ev" by (simp add: m)
  have r: "msg'\<lparr>event := None, sessionId := None, connectId := None\<rparr> = msg"
    using assms(2,3,4) by (cases sid; cases cid; cases msg; simp add: m)
  show ?thesis using True r by (simp add: f)
qed

lemma payload_field_result:
  assumes "payload_field msg data offset = Inr (msg', offset')" "payload msg = []"
  shows "offset' = offset + 4 + length (payload msg') \<and> msg'\<lparr>payload := []\<rparr> = msg"
  using assms
  by (cases msg) (auto simp add: payload_field_def Let_def slice_def split: if_splits)

lemma after_first_field:
  assumes "msg'\<lparr>sequence := None, errorCode := None\<rparr> = msg"
  shows "headerSize msg' = headerSize msg" "type msg' = type msg" "flag msg' = flag msg"
    "event msg' = event msg" "sessionId msg' = sessionId msg"
    "connectId msg' = connectId msg" "payload msg' = payload msg"
  using assms by (cases msg'; cases msg; auto)+

lemma after_event_fields:
  assumes "msg'\<lparr>event := None, sessionId := None, connectId := None\<rparr> = msg"
  shows "headerSize msg' = headerSize msg" "type msg' = type msg" "flag msg' = flag msg"
    "sequence msg' = sequence msg" "errorCode msg' = errorCode msg"
    "payload msg' = payload msg"
  using assms by (cases msg'; cases msg; auto)+

lemma after_payload_field:
  assumes "msg'\<lparr>payload := []\<rparr> = msg"
  shows "headerSize msg' = headerSize msg" "type msg' = type msg" "flag msg' = flag msg"
    "sequence msg' = sequence msg" "errorCode msg' = errorCode msg"
    "event msg' = event msg" "sessionId msg' = sessionId msg"
    "connectId msg' = connectId msg"
  using assms by (cases msg'; cases msg; auto)+

lemma unmarshalHeader_fresh:
  "event (unmarshalHeader data) = None" "sessionId (unmarshalHeader data) = None"
  "connectId (unmarshalHeader data) = None" "sequence (unmarshalHeader data) = None"
  "errorCode (unmarshalHeader data) = None" "payload (unmarshalHeader data) = []"
  by (simp_all add: unmarshalHeader_def Let_def)

lemma unmarshalState_layout:
  assumes "unmarshalState data = Inr (msg, offset)"
  shows "(event msg \<noteq> None) = (flag msg = WithEvent)
         \<and> (sequence msg \<noteq> None)
             = (content_kind (type msg) \<and> (flag msg = PositiveSeq \<or> flag msg = NegativeSeq))
         \<and> (errorCode msg \<noteq> None) = (type msg = MsgType_Error)"
proof -
  define h where "h = unmarshalHeader data"
  have l: "3 \<le> length data" using assms by (simp add: unmarshalState_def split: if_splits)
  from assms unmarshalState_spec [OF l] obtain msg1 offset1 msg2 offset2 where
    s1: "first_field h data (4 * headerSize h) = Inr (msg1, offset1)"
    and s2: "event_fields msg1 data offset1 = Inr (msg2, offset2)"
    and s3: "payload_field msg2 data offset2 = Inr (msg, offset)"
    by (auto simp add: Let_def h_def split: sum.splits prod.splits)
  note fresh = unmarshalHeader_fresh [of data, folded h_def]
  note r1 = first_field_result [OF s1 fresh(4,5)]
  from r1 have e1: "msg1\<lparr>sequence := None, errorCode := None\<rparr> = h" by simp
  note a1 = after_first_field [OF e1]
  have "event msg1 = None" "sessionId msg1 = None" "connectId msg1 = None"
    by (simp_all add: a1 fresh)
  note r2 = event_fields_result [OF s2 this]
  from r2 have e2: "msg2\<lparr>event := None, sessionId := None, connectId := None\<rparr> = msg1"
    by simp
  note a2 = after_event_fields [OF e2]
  have "payload msg2 = []" by (simp add: a2 a1 fresh)
  note r3 = payload_field_result [OF s3 this]
  from r3 have e3: "msg\<lparr>payload := []\<rparr> = msg2" by simp
  note a3 = after_payload_field [OF e3]
  have to_msg: "headerSize h = headerSize msg" "type h = type msg" "flag h = flag msg"
    "type msg1 = type msg" "flag msg1 = flag msg"
    "sequence msg1 = sequence msg" "errorCode msg1 = errorCode msg"
    "event msg2 = event msg" "sessionId msg2 = sessionId msg" "connectId msg2 = connectId msg"
    by (simp_all add: a1 a2 a3)
  have p1: "(sequence msg \<noteq> None)
             = (content_kind (type msg) \<and> (flag msg = PositiveSeq \<or> flag msg = NegativeSeq))"
      "(errorCode msg \<noteq> None) = (type msg = MsgType_Error)"
    using r1 by (simp_all only: to_msg)
  have p2: "(event msg \<noteq> None) = (flag msg = WithEvent)"
    using r2 by (simp_all only: to_msg)
  show ?thesis using p1 p2 by simp
qed

lemma unmarshalMessage_layout:
  assumes "unmarshalMessage data = Inr msg"
  shows "(event msg \<noteq> None) = (flag msg = WithEvent)
         \<and> (sequence msg \<noteq> None)
             = (content_kind (type msg) \<and> (flag msg = PositiveSeq \<or> flag msg = NegativeSeq))
         \<and> (errorCode msg \<noteq> None) = (type msg = MsgType_Error)"
proof -
  from assms obtain offset where "unmarshalState data = Inr (msg, offset)"
    by (auto simp add: unmarshalMessage_def split: sum.splits)
  then show ?thesis by (rule unmarshalState_layout)
qed

lemma writers_by_value:
  "(writeEvent m = None) = (event m = None)"
  "(writeSessionId m = None) = (case event m of None \<Rightarrow> True | Some e \<Rightarrow> connection_scope e)"
  "(writeSequence m = None) = (sequence m = None)"
  "(writeErrorCode m = None) = (errorCode m = None)"
  "writePayload m \<noteq> None"
  by (simp_all add: writeEvent_def writeSessionId_def writeSequence_def writeErrorCode_def
      writePayload_def connection_scope_def Let_def split: option.splits)

lemma readSessionId_consumes:
  assumes "readSessionId msg data offset = Inr (msg', offset')"
  shows "offset' = offset
           + (case event msg of
                None \<Rightarrow> 0
              | Some e \<Rightarrow> if decode_skips_sessionId e then 0 else 4 + getUint32 data offset)"
  using assms
  by (auto simp add: readSessionId_def decode_skips_sessionId_def Let_def
      split: option.splits if_splits)

lemma readConnectId_consumes:
  assumes "readConnectId msg data offset = Inr (msg', offset')"
  shows "offset' = offset
           + (case event msg of
                None \<Rightarrow> 0
              | Some e \<Rightarrow> if carries_connectId e then 4 + getUint32 data offset else 0)"
  using assms
  by (auto simp add: readConnectId_def carries_connectId_def Let_def
      split: option.splits if_splits)

lemmas writers_eval = written_def getWriters_def writeEvent_def writeSessionId_def
  writeSequence_def writeErrorCode_def writePayload_def createMessage_def Let_def

text \<open>
  C3 (amended). The writers marshalMessage runs and the readers unmarshalMessage runs are
  chosen by kind and flag alone. Of the writers, writeEvent writes exactly when the event
  is set, writeSessionId exactly when the event is set and outside StartConnection,
  FinishConnection, ConnectionStarted and ConnectionFailed, whatever the session id (an
  unset one is written as the empty string), and writePayload always; but writeSequence
  and writeErrorCode write only when the sequence and the error code are set. So two
  messages with the same kind, flag and event, and with their sequence set or unset alike
  and their error code set or unset alike, have the same fields in their frames. On
  decode, the event, the sequence and the error code of a message unmarshalMessage
  returns are set exactly when kind and flag make them applicable, and by the event alone
  readSessionId and readConnectId either read nothing or read a four-byte length and the
  bytes it counts.
\<close>

theorem field_presence:
  "(type m1 = type m2 \<and> flag m1 = flag m2
    \<longrightarrow> getWriters m1 = getWriters m2 \<and> getReaders m1 = getReaders m2)
   \<and> (writeEvent m = None) = (event m = None)
   \<and> (writeSessionId m = None)
       = (case event m of None \<Rightarrow> True | Some e \<Rightarrow> connection_scope e)
   \<and> (writeSequence m = None) = (sequence m = None)
   \<and> (writeErrorCode m = None) = (errorCode m = None)
   \<and> writePayload m \<noteq> None
   \<and> (type m1 = type m2 \<and> flag m1 = flag m2 \<and> event m1 = event m2
      \<and> (sequence m1 = None) = (sequence m2 = None)
      \<and> (errorCode m1 = None) = (errorCode m2 = None)
    \<longrightarrow> written m1 = written m2)
   \<and> (unmarshalMessage data = Inr msg
    \<longrightarrow> (event msg \<noteq> None) = (flag msg = WithEvent)
        \<and> (sequence msg \<noteq> None)
            = (content_kind (type msg) \<and> (flag msg = PositiveSeq \<or> flag msg = NegativeSeq))
        \<and> (errorCode msg \<noteq> None) = (type msg = MsgType_Error))
   \<and> (readSessionId r buf offset = Inr (r', offset')
    \<longrightarrow> offset' = offset
          + (case event r of
               None \<Rightarrow> 0
             | Some e \<Rightarrow> if decode_skips_sessionId e then 0 else 4 + getUint32 buf offset))
   \<and> (readConnectId r buf offset = Inr (r'', offset'')
    \<longrightarrow> offset'' = offset
          + (case event r of
               None \<Rightarrow> 0
             | Some e \<Rightarrow> if carries_connectId e then 4 + getUint32 buf offset else 0))"
proof (intro conjI impI)
  assume "type m1 = type m2 \<and> flag m1 = flag m2"
  then have t: "type m1 = type m2" and f: "flag m1 = flag m2" by simp_all
  show "getWriters m1 = getWriters m2" "getReaders m1 = getReaders m2"
    unfolding getWriters_def getReaders_def t f by (rule refl)+
next
  show "(writeEvent m = None) = (event m = None)"
    "(writeSessionId m = None)
       = (case event m of None \<Rightarrow> True | Some e \<Rightarrow> connection_scope e)"
    "(writeSequence m = None) = (sequence m = None)"
    "(writeErrorCode m = None) = (errorCode m = None)"
    "writePayload m \<noteq> None"
    by (rule writers_by_value)+
next
  assume "type m1 = type m2 \<and> flag m1 = flag m2 \<and> event m1 = event m2
      \<and> (sequence m1 = None) = (sequence m2 = None)
      \<and> (errorCode m1 = None) = (errorCode m2 = None)"
  then show "written m1 = written m2" using written_same [of m1 m2] by simp
next
  assume "unmarshalMessage data = Inr msg"
  from unmarshalMessage_layout [OF this]
  show "(event msg \<noteq> None) = (flag msg = WithEvent)"
    "(sequence msg \<noteq> None)
            = (content_kind (type msg) \<and> (flag msg = PositiveSeq \<or> flag msg = NegativeSeq))"
    "(errorCode msg \<noteq> None) = (type msg = MsgType_Error)"
    by simp_all
next
  assume "readSessionId r buf offset = Inr (r', offset')"
  then show "offset' = offset
          + (case event r of
               None \<Rightarrow> 0
             | Some e \<Rightarrow> if decode_skips_sessionId e then 0 else 4 + getUint32 buf offset)"
    by (rule readSessionId_consumes)
next
  assume "readConnectId r buf offset = Inr (r'', offset'')"
  then show "offset'' = offset
          + (case event r of
               None \<Rightarrow> 0
             | Some e \<Rightarrow> if carries_connectId e then 4 + getUint32 buf offset else 0)"
    by (rule readConnectId_consumes)
qed

theorem field_presence_witness:
  "written scenarioA_message = Inr [True, True, True]
   \<and> written (StartSession_message [] [0x78, 0x79, 0x7a]) = Inr [True, True, True]
   \<and> getWriters scenarioA_message = getWriters (StartSession_message [] [0x78, 0x79, 0x7a])
   \<and> unmarshalMessage scenarioA_frame = Inr scenarioA_message
   \<and> event scenarioA_message \<noteq> None \<and> flag scenarioA_message = WithEvent
   \<and> readSessionId ((createMessage MsgType_FullClientRequest WithEvent)\<lparr>event := Some StartSession\<rparr>)
        scenarioA_frame 8
      = Inr ((createMessage MsgType_FullClientRequest WithEvent)
               \<lparr>event := Some StartSession, sessionId := Some [0x61, 0x62, 0x63]\<rparr>, 15)
   \<and> getUint32 scenarioA_frame 8 = 3
   \<and> readConnectId ((createMessage MsgType_FullServerResponse WithEvent)\<lparr>event := Some ConnectionStarted\<rparr>)
        empty_session_frame 8
      = Inr ((createMessage MsgType_FullServerResponse WithEvent)\<lparr>event := Some ConnectionStarted\<rparr>, 12)
   \<and> getUint32 empty_session_frame 8 = 0"
proof -
  let ?B = "StartSession_message [] [0x78, 0x79, 0x7a]"
  let ?r = "(createMessage MsgType_FullClientRequest WithEvent)\<lparr>event := Some StartSession\<rparr>"
  let ?c = "(createMessage MsgType_FullServerResponse WithEvent)\<lparr>event := Some ConnectionStarted\<rparr>"
  have w: "written scenarioA_message = Inr [True, True, True]"
    by (simp add: scenarioA_message_def StartSession_message_def writers_eval)
  have h: "type scenarioA_message = type ?B \<and> flag scenarioA_message = flag ?B"
    "type scenarioA_message = type ?B \<and> flag scenarioA_message = flag ?B
      \<and> event scenarioA_message = event ?B
      \<and> (sequence scenarioA_message = None) = (sequence ?B = None)
      \<and> (errorCode scenarioA_message = None) = (errorCode ?B = None)"
    by (simp_all add: scenarioA_message_def StartSession_message_def createMessage_def)
  have f: "flag scenarioA_message = WithEvent"
    by (simp add: scenarioA_message_def StartSession_message_def createMessage_def)
  have s: "readSessionId ?r scenarioA_frame 8 = Inr (?r\<lparr>sessionId := Some [0x61, 0x62, 0x63]\<rparr>, 15)"
    by (simp add: readSessionId_def getUint32_def scenarioA_frame_def slice_def utf8_eval Let_def)
  have c: "readConnectId ?c empty_session_frame 8 = Inr (?c, 12)"
    by (simp add: readConnectId_def getUint32_def empty_session_frame_def Let_def)
  note fp = field_presence [where ?m1.0 = scenarioA_message and ?m2.0 = ?B
        and m = scenarioA_message and data = scenarioA_frame and msg = scenarioA_message
        and r = ?r and buf = scenarioA_frame and offset = 8 and offset' = 15
        and r' = "?r\<lparr>sessionId := Some [0x61, 0x62, 0x63]\<rparr>"
        and r'' = ?r and offset'' = 8]
  note fc = field_presence [where ?m1.0 = scenarioA_message and ?m2.0 = ?B
        and m = scenarioA_message and data = scenarioA_frame and msg = scenarioA_message
        and r = ?c and buf = empty_session_frame and offset = 8
        and r' = ?c and offset' = 8 and offset'' = 12 and r'' = ?c]
  from fp h(1) have gw: "getWriters scenarioA_message = getWriters ?B" by blast
  from fp h(2) have "written scenarioA_message = written ?B" by blast
  with w have wb: "written ?B = Inr [True, True, True]" by simp
  from fp unmarshalMessage_scenarioA
  have "(event scenarioA_message \<noteq> None) = (flag scenarioA_message = WithEvent)" by blast
  with f have ev: "event scenarioA_message \<noteq> None" by simp
  from fp s have "15 = 8 + (case event ?r of None \<Rightarrow> 0
      | Some e \<Rightarrow> if decode_skips_sessionId e then 0 else 4 + getUint32 scenarioA_frame 8)"
    by blast
  then have g1: "getUint32 scenarioA_frame 8 = 3"
    by (simp add: decode_skips_sessionId_def)
  from fc c have "12 = 8 + (case event ?c of None \<Rightarrow> 0
      | Some e \<Rightarrow> if carries_connectId e then 4 + getUint32 empty_session_frame 8 else 0)"
    by blast
  then have g2: "getUint32 empty_session_frame 8 = 0"
    by (simp add: carries_connectId_def)
  show ?thesis
    using w wb gw unmarshalMessage_scenarioA ev f s g1 c g2 by (intro conjI)
qed

text \<open>
  C3 as stated fails: the message AudioOnlyClient marshals for the flag PositiveSeq has no
  sequence and its frame has none, while the same message with a sequence has one in its
  frame; kind, flag and event are the same. An Error message with and without an error code
  differ likewise.
\<close>

theorem field_presence_counterexample:
  "type audio_client_message = type audio_client_message_seq
   \<and> flag audio_client_message = flag audio_client_message_seq
   \<and> event audio_client_message = event audio_client_message_seq
   \<and> written audio_client_message = Inr [False, True]
   \<and> written audio_client_message_seq = Inr [True, True]
   \<and> marshalMessage audio_client_message
       = Inr [0x11, 0x21, 0x10, 0x00, 0x00, 0x00, 0x00, 0x02, 0xAA, 0xBB]
   \<and> marshalMessage audio_client_message_seq
       = Inr [0x11, 0x21, 0x10, 0x00, 0x00, 0x00, 0x00, 0x05, 0x00, 0x00, 0x00, 0x02, 0xAA, 0xBB]
   \<and> type error_message_no_code = type error_message
   \<and> flag error_message_no_code = flag error_message
   \<and> event error_message_no_code = event error_message
   \<and> written error_message_no_code = Inr [False, True]
   \<and> written error_message = Inr [True, True]"
proof -
  have "marshalMessage audio_client_message
       = Inr [0x11, 0x21, 0x10, 0x00, 0x00, 0x00, 0x00, 0x02, 0xAA, 0xBB]"
    by (simp add: marshalMessage_eq_encode audio_client_message_def AudioOnlyClient_message_def
        encode_eval)
  moreover have "marshalMessage audio_client_message_seq
       = Inr [0x11, 0x21, 0x10, 0x00, 0x00, 0x00, 0x00, 0x05, 0x00, 0x00, 0x00, 0x02, 0xAA, 0xBB]"
    by (simp add: marshalMessage_eq_encode audio_client_message_seq_def
        audio_client_message_def AudioOnlyClient_message_def encode_eval)
  ultimately show ?thesis
    by (simp add: audio_client_message_seq_def audio_client_message_def
        AudioOnlyClient_message_def error_message_no_code_def error_message_def writers_eval)
qed

end
